theory Spec2Isabelle
  imports Main
begin

section \<open>JavaScript values\<close>

text \<open>
  The sync handlers of \<^verbatim>\<open>local-api/src\<close> read plain JSON objects and hand scalars to
  prepared statements. A value is \<^verbatim>\<open>undefined\<close>, \<^verbatim>\<open>null\<close>, a boolean, a number, a
  string or an object; an object is the list of its own properties. Numbers are
  integers here: the handlers never compute with them.
\<close>

datatype jsval =
    JUndefined
  | JNull
  | JBool bool
  | JNum int
  | JStr string
  | JObj "(string \<times> jsval) list"

type_synonym jsobj = "(string \<times> jsval) list"

text \<open>\<^verbatim>\<open>obj.k\<close>: a property that is not there reads as \<^verbatim>\<open>undefined\<close>.\<close>

definition js_get :: "jsobj \<Rightarrow> string \<Rightarrow> jsval" where
  "js_get obj k = (case map_of obj k of Some v \<Rightarrow> v | None \<Rightarrow> JUndefined)"

fun truthy :: "jsval \<Rightarrow> bool" where
  "truthy JUndefined = False"
| "truthy JNull = False"
| "truthy (JBool b) = b"
| "truthy (JNum n) = (n \<noteq> 0)"
| "truthy (JStr s) = (s \<noteq> [])"
| "truthy (JObj kvs) = True"

text \<open>\<^verbatim>\<open>a || b\<close> and \<^verbatim>\<open>a ? 1 : 0\<close>.\<close>

definition js_or :: "jsval \<Rightarrow> jsval \<Rightarrow> jsval" where
  "js_or a b = (if truthy a then a else b)"

definition flag :: "jsval \<Rightarrow> jsval" where
  "flag a = (if truthy a then JNum 1 else JNum 0)"

section \<open>The record store\<close>

text \<open>
  The store is an SQLite database reached through better-sqlite3. Its tables are
  those that \<^verbatim>\<open>schema.sql\<close> declares. A table declaration lists columns (name,
  \<^verbatim>\<open>NOT NULL\<close>, \<^verbatim>\<open>DEFAULT\<close>), \<^verbatim>\<open>UNIQUE\<close> constraints and foreign keys. The surrogate
  \<^verbatim>\<open>id INTEGER PRIMARY KEY AUTOINCREMENT\<close> column, which no statement of the sync
  handlers reads or writes, is left out, and so is the conversion between storage
  classes (column affinity).
\<close>

datatype sqlval = Null | Text string | Integer int

datatype dflt = NoDefault | DefaultValue sqlval | DefaultNow

datatype column = Column (cname: string) (notnull: bool) (cdefault: dflt)

datatype table_def =
  Table (columns: "column list") (uniques: "string list list")
        (foreign_keys: "(string \<times> string \<times> string) list")

type_synonym row = "string \<Rightarrow> sqlval"

type_synonym schema = "string \<Rightarrow> table_def option"

record database =
  schema :: schema
  rows :: "string \<Rightarrow> row list"

text \<open>What a statement or the handler itself can throw.\<close>

datatype failure =
    NoSuchTable
  | NoSuchColumn
  | NoMatchingConstraint
  | BindError
  | NotNullFailed
  | UniqueFailed
  | ForeignKeyFailed
  | NoWalletFound
  | NotAFunction

text \<open>
  \<^verbatim>\<open>err.message.includes('UNIQUE constraint')\<close>. SQLite's messages are
  "UNIQUE constraint failed: ..." for a uniqueness violation and "ON CONFLICT clause
  does not match any PRIMARY KEY or UNIQUE constraint" for a conflict target with no
  index behind it; no other message holds the phrase.
\<close>

fun mentions_unique :: "failure \<Rightarrow> bool" where
  "mentions_unique UniqueFailed = True"
| "mentions_unique NoMatchingConstraint = True"
| "mentions_unique e = False"

subsection \<open>Statements\<close>

text \<open>
  Every statement of the handlers has the shape
  \<^verbatim>\<open>INSERT INTO t (cols) VALUES (vals) ON CONFLICT(target) DO NOTHING | DO UPDATE SET ...\<close>.
  A value is a parameter \<^verbatim>\<open>?\<close>, \<^verbatim>\<open>datetime('now')\<close> or a literal; an assignment of
  \<^verbatim>\<open>DO UPDATE\<close> takes \<^verbatim>\<open>excluded.c\<close> (the same column of the row that was to be
  inserted), \<^verbatim>\<open>datetime('now')\<close> or a literal.
\<close>

datatype valexpr = Param | NowValue | Lit sqlval

datatype setexpr = Excluded | NowSet | LitSet sqlval

datatype resolution = DoNothing | DoUpdate "(string \<times> setexpr) list"

datatype stmt =
  Insert (tbl: string) (cols: "string list") (vals: "valexpr list")
         (target: "string list") (resolution: resolution)

fun assigned :: "resolution \<Rightarrow> string list" where
  "assigned DoNothing = []"
| "assigned (DoUpdate sets) = map fst sets"

text \<open>
  \<^verbatim>\<open>db.prepare\<close> compiles the statement against the schema: the table and the columns
  must exist, and the conflict target must be the column set of a \<^verbatim>\<open>UNIQUE\<close>
  constraint of the table.
\<close>

definition prepare :: "database \<Rightarrow> stmt \<Rightarrow> failure + stmt" where
  "prepare d st =
     (case schema d (tbl st) of
        None \<Rightarrow> Inl NoSuchTable
      | Some td \<Rightarrow>
          if \<not> list_all (\<lambda>c. c \<in> set (map cname (columns td)))
                   (cols st @ target st @ assigned (resolution st))
            then Inl NoSuchColumn
          else if \<not> list_ex (\<lambda>u. set u = set (target st)) (uniques td)
            then Inl NoMatchingConstraint
          else Inr st)"

text \<open>
  better-sqlite3 binds numbers and strings as they are, and both \<^verbatim>\<open>null\<close> and
  \<^verbatim>\<open>undefined\<close> as \<^verbatim>\<open>NULL\<close>; a boolean makes \<^verbatim>\<open>run\<close> throw a TypeError, a plain object
  is taken for named parameters and leaves the statement one value short, and a wrong
  number of parameters throws too.
\<close>

fun bind :: "jsval \<Rightarrow> failure + sqlval" where
  "bind JUndefined = Inr Null"
| "bind JNull = Inr Null"
| "bind (JNum n) = Inr (Integer n)"
| "bind (JStr s) = Inr (Text s)"
| "bind (JBool b) = Inl BindError"
| "bind (JObj kvs) = Inl BindError"

definition and_then :: "sqlval \<Rightarrow> failure + sqlval list \<Rightarrow> failure + sqlval list" where
  "and_then v r = (case r of Inl e \<Rightarrow> Inl e | Inr vs \<Rightarrow> Inr (v # vs))"

fun bind_values :: "string \<Rightarrow> valexpr list \<Rightarrow> jsval list \<Rightarrow> failure + sqlval list" where
  "bind_values now [] [] = Inr []"
| "bind_values now [] (p # ps) = Inl BindError"
| "bind_values now (Param # es) [] = Inl BindError"
| "bind_values now (Param # es) (p # ps) =
     (case bind p of Inl e \<Rightarrow> Inl e | Inr v \<Rightarrow> and_then v (bind_values now es ps))"
| "bind_values now (NowValue # es) ps = and_then (Text now) (bind_values now es ps)"
| "bind_values now (Lit v # es) ps = and_then v (bind_values now es ps)"

text \<open>The row an \<^verbatim>\<open>INSERT\<close> builds: the given columns, the declared default elsewhere.\<close>

definition default_row :: "string \<Rightarrow> table_def \<Rightarrow> row" where
  "default_row now td =
     (\<lambda>c. case find (\<lambda>col. cname col = c) (columns td) of
            None \<Rightarrow> Null
          | Some col \<Rightarrow>
              (case cdefault col of
                 NoDefault \<Rightarrow> Null
               | DefaultValue v \<Rightarrow> v
               | DefaultNow \<Rightarrow> Text now))"

definition new_row :: "string \<Rightarrow> table_def \<Rightarrow> string list \<Rightarrow> sqlval list \<Rightarrow> row" where
  "new_row now td cs vs = fold (\<lambda>(c, v) r. r(c := v)) (zip cs vs) (default_row now td)"

text \<open>
  Two rows collide on a \<^verbatim>\<open>UNIQUE\<close> constraint when they agree on each of its columns;
  SQLite holds \<^verbatim>\<open>NULL\<close> distinct from every value, itself included.
\<close>

definition same_key :: "string list \<Rightarrow> row \<Rightarrow> row \<Rightarrow> bool" where
  "same_key u r n = list_all (\<lambda>c. n c \<noteq> Null \<and> r c = n c) u"

definition assign :: "string \<Rightarrow> (string \<times> setexpr) list \<Rightarrow> row \<Rightarrow> row \<Rightarrow> row" where
  "assign now sets n r =
     fold (\<lambda>(c, e) r'. r'(c := (case e of Excluded \<Rightarrow> n c | NowSet \<Rightarrow> Text now | LitSet v \<Rightarrow> v)))
          sets r"

definition fk_holds :: "database \<Rightarrow> row \<Rightarrow> string \<times> string \<times> string \<Rightarrow> bool" where
  "fk_holds d n fk =
     (case fk of (c, t, c') \<Rightarrow> n c = Null \<or> list_ex (\<lambda>p. p c' = n c) (rows d t))"

text \<open>
  \<^verbatim>\<open>stmt.run(params)\<close>. SQLite checks \<^verbatim>\<open>NOT NULL\<close> first, then the \<^verbatim>\<open>UNIQUE\<close>
  constraints: a collision on a constraint other than the conflict target fails the
  statement, a collision on the target is resolved as the statement says, and without
  any collision the row is appended once its foreign keys hold. A failing statement
  leaves the store as it was. The assignments of the statements below touch no
  \<^verbatim>\<open>UNIQUE\<close>, \<^verbatim>\<open>NOT NULL\<close>-violating or foreign-key column, so \<^verbatim>\<open>DO UPDATE\<close> needs no second
  check.
\<close>

definition run :: "string \<Rightarrow> database \<Rightarrow> stmt \<Rightarrow> jsval list \<Rightarrow> failure + database" where
  "run now d st ps =
     (case schema d (tbl st) of
        None \<Rightarrow> Inl NoSuchTable
      | Some td \<Rightarrow>
          (case bind_values now (vals st) ps of
             Inl e \<Rightarrow> Inl e
           | Inr vs \<Rightarrow>
               (let n = new_row now td (cols st) vs; rs = rows d (tbl st) in
                if list_ex (\<lambda>c. notnull c \<and> n (cname c) = Null) (columns td)
                  then Inl NotNullFailed
                else if list_ex (\<lambda>u. set u \<noteq> set (target st) \<and> list_ex (\<lambda>r. same_key u r n) rs)
                                (uniques td)
                  then Inl UniqueFailed
                else if list_ex (\<lambda>r. same_key (target st) r n) rs
                  then (case resolution st of
                          DoNothing \<Rightarrow> Inr d
                        | DoUpdate sets \<Rightarrow>
                            Inr (d\<lparr>rows := (rows d)(tbl st :=
                                   map (\<lambda>r. if same_key (target st) r n then assign now sets n r else r) rs)\<rparr>))
                else if \<not> list_all (fk_holds d n) (foreign_keys td)
                  then Inl ForeignKeyFailed
                else Inr (d\<lparr>rows := (rows d)(tbl st := rs @ [n])\<rparr>))))"

subsection \<open>The schema of \<^verbatim>\<open>schema.sql\<close>\<close>

abbreviation plain :: "string \<Rightarrow> column" where
  "plain c \<equiv> Column c False NoDefault"

abbreviation required :: "string \<Rightarrow> column" where
  "required c \<equiv> Column c True NoDefault"

abbreviation stamped :: "string \<Rightarrow> column" where
  "stamped c \<equiv> Column c False DefaultNow"

definition user_wallets :: table_def where
  "user_wallets = Table
     [plain ''user_id'', required ''wallet_type'', required ''address'', plain ''chain_id'',
      Column ''is_primary'' False (DefaultValue (Integer 0)), stamped ''created_at'']
     [[''wallet_type'', ''address'', ''chain_id'']]
     [(''user_id'', ''users'', ''id'')]"

definition user_preferences :: table_def where
  "user_preferences = Table
     [plain ''user_id'', required ''wallet_address'',
      Column ''locale'' False (DefaultValue (Text ''en'')), plain ''selected_network'',
      plain ''color_mode'', Column ''has_acknowledged_terms'' False (DefaultValue (Integer 0)),
      Column ''notifications_enabled'' False (DefaultValue (Integer 1)),
      plain ''gas_preferences'', stamped ''created_at'', stamped ''updated_at'']
     [[''wallet_address'']]
     [(''user_id'', ''users'', ''id'')]"

text \<open>
  \<^verbatim>\<open>default_slippage REAL DEFAULT 0.01\<close>: the default is a real number, kept as its
  text; the handler always names the column, so the default is never taken.
\<close>

definition trading_preferences :: table_def where
  "trading_preferences = Table
     [plain ''user_id'', required ''wallet_address'',
      Column ''default_slippage'' False (DefaultValue (Text ''0.01'')), plain ''trade_layout'',
      plain ''chart_preferences'', plain ''order_side_preference'',
      Column ''display_unit'' False (DefaultValue (Text ''ASSET'')),
      stamped ''created_at'', stamped ''updated_at'']
     [[''wallet_address'']]
     [(''user_id'', ''users'', ''id'')]"

definition dismissed_items :: table_def where
  "dismissed_items = Table
     [required ''wallet_address'', required ''item_key'', stamped ''dismissed_at'']
     [[''wallet_address'', ''item_key'']]
     []"

definition affiliates_table :: table_def where
  "affiliates_table = Table
     [required ''wallet_address'', plain ''affiliate_address'', plain ''affiliate_metadata'',
      stamped ''created_at'']
     [[''wallet_address'']]
     []"

definition account_balances :: table_def where
  "account_balances = Table
     [required ''wallet_address'', required ''chain_id'', required ''token_symbol'',
      plain ''token_denom'', required ''balance'', plain ''available_balance'',
      plain ''locked_balance'', stamped ''last_updated'']
     [[''wallet_address'', ''chain_id'', ''token_symbol'', ''token_denom'']]
     []"

text \<open>The \<^verbatim>\<open>positions\<close> table declares no \<^verbatim>\<open>UNIQUE\<close> constraint.\<close>

definition positions_table :: table_def where
  "positions_table = Table
     [required ''wallet_address'', plain ''position_id'', required ''market'', required ''side'',
      required ''status'', required ''size'', plain ''max_size'', plain ''entry_price'',
      plain ''exit_price'', plain ''realized_pnl'', plain ''unrealized_pnl'',
      stamped ''created_at'', stamped ''updated_at'', plain ''closed_at'']
     []
     []"

definition orders_table :: table_def where
  "orders_table = Table
     [required ''wallet_address'', required ''order_id'', plain ''client_id'', required ''market'',
      required ''side'', required ''type'', required ''status'', plain ''price'',
      plain ''trigger_price'', required ''size'', plain ''remaining_size'',
      Column ''post_only'' False (DefaultValue (Integer 0)),
      Column ''reduce_only'' False (DefaultValue (Integer 0)),
      plain ''time_in_force'', plain ''good_til_block'',
      stamped ''created_at'', stamped ''updated_at'']
     [[''order_id'']]
     []"

definition fills_table :: table_def where
  "fills_table = Table
     [required ''wallet_address'', required ''fill_id'', required ''order_id'', required ''market'',
      required ''side'', required ''size'', required ''price'', required ''fee'',
      plain ''liquidity'', stamped ''created_at'']
     [[''fill_id'']]
     [(''order_id'', ''orders'', ''order_id'')]"

text \<open>
  Neither \<^verbatim>\<open>transfers\<close> nor \<^verbatim>\<open>swaps\<close> declares a \<^verbatim>\<open>UNIQUE\<close> constraint;
  \<^verbatim>\<open>idx_transfers_tx_hash\<close> and \<^verbatim>\<open>idx_swaps_tx_hash\<close> are plain indexes.
\<close>

definition transfers_table :: table_def where
  "transfers_table = Table
     [required ''wallet_address'', plain ''transfer_id'', plain ''tx_hash'', required ''type'',
      required ''status'', plain ''from_address'', plain ''to_address'', plain ''from_chain'',
      plain ''to_chain'', required ''amount'', required ''token_symbol'', plain ''token_denom'',
      plain ''fee'', stamped ''created_at'', stamped ''updated_at'']
     []
     []"

definition swaps_table :: table_def where
  "swaps_table = Table
     [required ''wallet_address'', plain ''swap_id'', plain ''tx_hash'', required ''from_chain'',
      required ''to_chain'', required ''from_token'', required ''to_token'',
      required ''from_amount'', plain ''to_amount'', plain ''estimated_to_amount'',
      plain ''route_data'', required ''status'', stamped ''created_at'', stamped ''updated_at'']
     []
     []"

definition markets_table :: table_def where
  "markets_table = Table
     [required ''market_id'', required ''base_asset'', required ''quote_asset'',
      required ''tick_size'', required ''step_size'', required ''min_order_size'',
      plain ''initial_margin_fraction'', plain ''maintenance_margin_fraction'',
      Column ''status'' False (DefaultValue (Text ''ACTIVE'')), stamped ''updated_at'']
     [[''market_id'']]
     []"

definition sync_metadata :: table_def where
  "sync_metadata = Table
     [required ''wallet_address'', required ''data_type'', stamped ''last_sync_at'',
      Column ''sync_status'' False (DefaultValue (Text ''success'')), plain ''error_message'',
      Column ''records_synced'' False (DefaultValue (Integer 0))]
     [[''wallet_address'', ''data_type'']]
     []"

definition schema_sql :: schema where
  "schema_sql = map_of
     [(''user_wallets'', user_wallets),
      (''user_preferences'', user_preferences),
      (''trading_preferences'', trading_preferences),
      (''dismissed_items'', dismissed_items),
      (''affiliates'', affiliates_table),
      (''account_balances'', account_balances),
      (''positions'', positions_table),
      (''orders'', orders_table),
      (''fills'', fills_table),
      (''transfers'', transfers_table),
      (''swaps'', swaps_table),
      (''markets'', markets_table),
      (''sync_metadata'', sync_metadata)]"

section \<open>Sync results and the transaction\<close>

text \<open>
  \<^verbatim>\<open>result.synced\<close> is an object of counters and \<^verbatim>\<open>result.errors\<close> a list of
  messages; a message is kept as its prefix, the value interpolated after it (where
  there is one) and the error whose message follows.
\<close>

type_synonym counts = "(string \<times> nat) list"

definition bump :: "string \<Rightarrow> counts \<Rightarrow> counts" where
  "bump k cs = map (\<lambda>(k', n). if k' = k then (k', Suc n) else (k', n)) cs"

definition count_of :: "counts \<Rightarrow> string \<Rightarrow> nat" where
  "count_of cs k = (case map_of cs k of Some n \<Rightarrow> n | None \<Rightarrow> 0)"

datatype errmsg = About string jsval failure | Plain string failure

record sync_result =
  success :: bool
  timestamp :: string
  synced :: counts
  errors :: "errmsg list"

text \<open>
  What the handlers take from outside: \<^verbatim>\<open>datetime('now')\<close> of SQLite,
  \<^verbatim>\<open>new Date().toISOString()\<close> (one instant for a whole pass) and \<^verbatim>\<open>JSON.stringify\<close>.
\<close>

record env =
  sql_now :: string
  iso_now :: string
  stringify :: "jsval \<Rightarrow> string"

text \<open>
  Inside \<^verbatim>\<open>db.transaction(() => {...})\<close> the state is the store and the result object,
  which the callback mutates in place.
\<close>

type_synonym txn = "database \<times> sync_result"

definition counted :: "string \<Rightarrow> sync_result \<Rightarrow> sync_result" where
  "counted k res = res\<lparr>synced := bump k (synced res)\<rparr>"

definition pushed :: "errmsg \<Rightarrow> sync_result \<Rightarrow> sync_result" where
  "pushed m res = res\<lparr>errors := errors res @ [m]\<rparr>"

text \<open>
  \<^verbatim>\<open>for (const x of xs) { try { stmt.run(...); result.synced.k++ } catch (err) {...} }\<close>:
  the catch block pushes a message, or for some categories drops the error.
\<close>

fun run_each ::
  "(database \<Rightarrow> jsobj \<Rightarrow> failure + database) \<Rightarrow> string \<Rightarrow> (jsobj \<Rightarrow> failure \<Rightarrow> errmsg option) \<Rightarrow>
   jsobj list \<Rightarrow> txn \<Rightarrow> txn" where
  "run_each exec k report [] s = s"
| "run_each exec k report (x # xs) s =
     run_each exec k report xs
       (case exec (fst s) x of
          Inr d' \<Rightarrow> (d', counted k (snd s))
        | Inl e \<Rightarrow>
            (fst s, (case report x e of None \<Rightarrow> snd s | Some m \<Rightarrow> pushed m (snd s))))"

text \<open>A statement prepared outside the \<^verbatim>\<open>try\<close>, then run for each record.\<close>

definition each_record ::
  "string \<Rightarrow> stmt \<Rightarrow> (jsobj \<Rightarrow> jsval list) \<Rightarrow> string \<Rightarrow> (jsobj \<Rightarrow> failure \<Rightarrow> errmsg option) \<Rightarrow>
   jsobj list \<Rightarrow> txn \<Rightarrow> failure + txn" where
  "each_record now st params k report xs s =
     (case prepare (fst s) st of
        Inl e \<Rightarrow> Inl e
      | Inr st' \<Rightarrow> Inr (run_each (\<lambda>d x. run now d st' (params x)) k report xs s))"

text \<open>\<^verbatim>\<open>try { const stmt = db.prepare(...); stmt.run(...); result.synced.k++ } catch ...\<close>\<close>

definition attempt :: "string \<Rightarrow> stmt \<Rightarrow> jsval list \<Rightarrow> string \<Rightarrow> string \<Rightarrow> txn \<Rightarrow> txn" where
  "attempt now st ps k label s =
     (case (case prepare (fst s) st of Inl e \<Rightarrow> Inl e | Inr st' \<Rightarrow> run now (fst s) st' ps) of
        Inr d' \<Rightarrow> (d', counted k (snd s))
      | Inl e \<Rightarrow> (fst s, pushed (Plain label e) (snd s)))"

text \<open>
  The callback's sections run in order; the first one that throws ends the callback,
  with the result object as it stood.
\<close>

fun steps :: "(txn \<Rightarrow> failure + txn) list \<Rightarrow> txn \<Rightarrow> failure option \<times> txn" where
  "steps [] s = (None, s)"
| "steps (f # fs) s = (case f s of Inl e \<Rightarrow> (Some e, s) | Inr s' \<Rightarrow> steps fs s')"

definition always :: "string \<Rightarrow> jsobj \<Rightarrow> failure \<Rightarrow> errmsg option" where
  "always label x e = Some (Plain label e)"

definition about :: "string \<Rightarrow> string \<Rightarrow> jsobj \<Rightarrow> failure \<Rightarrow> errmsg option" where
  "about label k x e = Some (About label (js_get x k) e)"

definition unless_unique :: "string \<Rightarrow> string \<Rightarrow> jsobj \<Rightarrow> failure \<Rightarrow> errmsg option" where
  "unless_unique label k x e =
     (if mentions_unique e then None else Some (About label (js_get x k) e))"

definition totalRecords :: "sync_result \<Rightarrow> nat" where
  "totalRecords res = sum_list (map snd (synced res))"

section \<open>\<^verbatim>\<open>syncBrowserData\<close>\<close>

text \<open>
  The exported browser data. A section that is absent (or, for a list, not an array)
  is \<open>None\<close>; the elements of a list are objects. The handler and the endpoint read
  \<^verbatim>\<open>data.wallets\<close> before they know it is an array: \<open>wallets\<close> is \<open>Some ws\<close> for an array
  and \<open>None\<close> for anything else, and \<open>wallets_value\<close> is then the value found there
  (\<^verbatim>\<open>undefined\<close> when the property is absent); it is read in no other case.
\<close>

record export_data =
  wallets :: "jsobj list option"
  wallets_value :: jsval
  preferences :: "jsobj option"
  tradingPreferences :: "jsobj option"
  dismissedItems :: "jsobj list option"
  affiliates :: "jsobj option"
  transfers :: "jsobj list option"
  swaps :: "jsobj list option"

text \<open>
  \<^verbatim>\<open>data.wallets?.find(w => w.type === 'dydx') || data.wallets?.find(w => w.type === 'evm')
  || data.wallets?.[0]\<close>
\<close>

definition primaryWallet :: "export_data \<Rightarrow> jsobj option" where
  "primaryWallet data =
     (case wallets data of
        None \<Rightarrow> None
      | Some ws \<Rightarrow>
          (case find (\<lambda>w. js_get w ''type'' = JStr ''dydx'') ws of
             Some w \<Rightarrow> Some w
           | None \<Rightarrow>
               (case find (\<lambda>w. js_get w ''type'' = JStr ''evm'') ws of
                  Some w \<Rightarrow> Some w
                | None \<Rightarrow> (case ws of [] \<Rightarrow> None | w # rest \<Rightarrow> Some w))))"

definition walletStmt :: stmt where
  "walletStmt = Insert ''user_wallets''
     [''wallet_type'', ''address'', ''chain_id'', ''is_primary'']
     [Param, Param, Param, Param]
     [''wallet_type'', ''address'', ''chain_id'']
     (DoUpdate [(''is_primary'', Excluded)])"

definition prefStmt :: stmt where
  "prefStmt = Insert ''user_preferences''
     [''wallet_address'', ''locale'', ''selected_network'', ''color_mode'',
      ''has_acknowledged_terms'', ''notifications_enabled'', ''updated_at'']
     [Param, Param, Param, Param, Param, Param, NowValue]
     [''wallet_address'']
     (DoUpdate [(''locale'', Excluded), (''selected_network'', Excluded), (''color_mode'', Excluded),
                (''has_acknowledged_terms'', Excluded), (''notifications_enabled'', Excluded),
                (''updated_at'', Excluded)])"

definition tradePrefStmt :: stmt where
  "tradePrefStmt = Insert ''trading_preferences''
     [''wallet_address'', ''default_slippage'', ''trade_layout'', ''chart_preferences'',
      ''display_unit'', ''updated_at'']
     [Param, Param, Param, Param, Param, NowValue]
     [''wallet_address'']
     (DoUpdate [(''default_slippage'', Excluded), (''trade_layout'', Excluded),
                (''chart_preferences'', Excluded), (''display_unit'', Excluded),
                (''updated_at'', Excluded)])"

definition dismissedStmt :: stmt where
  "dismissedStmt = Insert ''dismissed_items''
     [''wallet_address'', ''item_key'', ''dismissed_at'']
     [Param, Param, Param]
     [''wallet_address'', ''item_key'']
     DoNothing"

definition affiliateStmt :: stmt where
  "affiliateStmt = Insert ''affiliates''
     [''wallet_address'', ''affiliate_address'', ''affiliate_metadata'']
     [Param, Param, Param]
     [''wallet_address'']
     (DoUpdate [(''affiliate_address'', Excluded), (''affiliate_metadata'', Excluded)])"

definition transfer_columns :: "string list" where
  "transfer_columns =
     [''wallet_address'', ''transfer_id'', ''tx_hash'', ''type'', ''status'',
      ''from_address'', ''to_address'', ''from_chain'', ''to_chain'',
      ''amount'', ''token_symbol'', ''token_denom'', ''fee'', ''created_at'', ''updated_at'']"

definition browserTransferStmt :: stmt where
  "browserTransferStmt = Insert ''transfers'' transfer_columns 
     [Param, Param, Param, Param, Param, Param, Param, Param, Param, Param, Param, Param, Param,
      Param, Param]
    
     [''tx_hash''] DoNothing"

definition swapStmt :: stmt where
  "swapStmt = Insert ''swaps''
     [''wallet_address'', ''swap_id'', ''tx_hash'', ''from_chain'', ''to_chain'',
      ''from_token'', ''to_token'', ''from_amount'', ''to_amount'', ''estimated_to_amount'',
      ''route_data'', ''status'', ''created_at'', ''updated_at'']
     [Param, Param, Param, Param, Param, Param, Param, Param, Param, Param, Param, Param, Param,
      Param]
     [''tx_hash''] DoNothing"

definition syncMetaStmt :: "string \<Rightarrow> stmt" where
  "syncMetaStmt data_type = Insert ''sync_metadata''
     [''wallet_address'', ''data_type'', ''last_sync_at'', ''sync_status'', ''records_synced'']
     [Param, Lit (Text data_type), NowValue, Lit (Text ''success''), Param]
     [''wallet_address'', ''data_type'']
     (DoUpdate [(''last_sync_at'', NowSet), (''sync_status'', LitSet (Text ''success'')),
                (''records_synced'', Excluded)])"

definition wallet_params :: "jsval \<Rightarrow> jsobj \<Rightarrow> jsval list" where
  "wallet_params walletAddress w =
     [js_get w ''type'', js_get w ''address'', js_or (js_get w ''chainId'') JNull,
      if js_get w ''address'' = walletAddress then JNum 1 else JNum 0]"

definition pref_params :: "jsval \<Rightarrow> jsobj \<Rightarrow> jsval list" where
  "pref_params walletAddress p =
     [walletAddress, js_or (js_get p ''locale'') JNull, js_or (js_get p ''network'') JNull,
      js_or (js_get p ''colorMode'') JNull, flag (js_get p ''hasAcknowledgedTerms''),
      flag (js_get p ''notificationsEnabled'')]"

definition tradePref_params :: "env \<Rightarrow> jsval \<Rightarrow> jsobj \<Rightarrow> jsval list" where
  "tradePref_params ev walletAddress p =
     [walletAddress, js_or (js_get p ''defaultSlippage'') JNull,
      JStr (stringify ev (js_or (js_get p ''tradeLayout'') (JObj []))),
      JStr (stringify ev (js_or (js_get p ''chartPreferences'') (JObj []))),
      js_or (js_get p ''displayUnit'') (JStr ''ASSET'')]"

definition dismissed_params :: "env \<Rightarrow> jsval \<Rightarrow> jsobj \<Rightarrow> jsval list" where
  "dismissed_params ev walletAddress item =
     [walletAddress, js_get item ''key'', js_or (js_get item ''dismissedAt'') (JStr (iso_now ev))]"

definition affiliate_params :: "env \<Rightarrow> jsval \<Rightarrow> jsobj \<Rightarrow> jsval list" where
  "affiliate_params ev walletAddress a =
     [walletAddress, js_or (js_get a ''address'') JNull, JStr (stringify ev (JObj a))]"

definition browser_transfer_params :: "env \<Rightarrow> jsval \<Rightarrow> jsobj \<Rightarrow> jsval list" where
  "browser_transfer_params ev walletAddress t =
     [walletAddress, js_or (js_get t ''id'') JNull, js_or (js_get t ''txHash'') JNull,
      js_or (js_get t ''type'') (JStr ''TRANSFER''), js_or (js_get t ''status'') (JStr ''PENDING''),
      js_or (js_get t ''fromAddress'') JNull, js_or (js_get t ''toAddress'') JNull,
      js_or (js_get t ''fromChainId'') JNull, js_or (js_get t ''toChainId'') JNull,
      js_or (js_get t ''amount'') (JStr ''0''),
      js_or (js_or (js_get t ''token'') (js_get t ''symbol'')) JNull,
      js_or (js_get t ''denom'') JNull, js_or (js_get t ''fee'') JNull,
      js_or (js_get t ''createdAt'') (JStr (iso_now ev)),
      js_or (js_get t ''updatedAt'') (JStr (iso_now ev))]"

definition swap_params :: "env \<Rightarrow> jsval \<Rightarrow> jsobj \<Rightarrow> jsval list" where
  "swap_params ev walletAddress w =
     [walletAddress, js_or (js_get w ''id'') JNull, js_or (js_get w ''txHash'') JNull,
      js_or (js_get w ''fromChainId'') JNull, js_or (js_get w ''toChainId'') JNull,
      js_or (js_get w ''fromToken'') JNull, js_or (js_get w ''toToken'') JNull,
      js_or (js_get w ''fromAmount'') (JStr ''0''), js_or (js_get w ''toAmount'') JNull,
      js_or (js_get w ''estimatedToAmount'') JNull,
      JStr (stringify ev (js_or (js_get w ''route'') (JObj []))),
      js_or (js_get w ''status'') (JStr ''PENDING''),
      js_or (js_get w ''createdAt'') (JStr (iso_now ev)),
      js_or (js_get w ''updatedAt'') (JStr (iso_now ev))]"

text \<open>
  Section 8 of the callback, shared with \<^verbatim>\<open>syncBlockchainData\<close>: neither the
  \<^verbatim>\<open>prepare\<close> nor the \<^verbatim>\<open>run\<close> is inside a \<^verbatim>\<open>try\<close>.
\<close>

definition sync_meta :: "env \<Rightarrow> string \<Rightarrow> jsval \<Rightarrow> txn \<Rightarrow> failure + txn" where
  "sync_meta ev data_type walletAddress s =
     (case prepare (fst s) (syncMetaStmt data_type) of
        Inl e \<Rightarrow> Inl e
      | Inr st \<Rightarrow>
          (case run (sql_now ev) (fst s) st [walletAddress, JNum (int (totalRecords (snd s)))] of
             Inl e \<Rightarrow> Inl e
           | Inr d' \<Rightarrow> Inr (d', snd s)))"

text \<open>The seven sections before it, for the wallet address the callback settled on.\<close>

definition browser_sections :: "env \<Rightarrow> export_data \<Rightarrow> jsval \<Rightarrow> (txn \<Rightarrow> failure + txn) list" where
  "browser_sections ev data walletAddress =
     [each_record (sql_now ev) walletStmt (wallet_params walletAddress) ''wallets''
        (about ''Wallet'' ''address'') (case wallets data of None \<Rightarrow> [] | Some ws \<Rightarrow> ws),
      (\<lambda>s. case preferences data of
              None \<Rightarrow> Inr s
            | Some p \<Rightarrow> Inr (attempt (sql_now ev) prefStmt (pref_params walletAddress p)
                              ''preferences'' ''Preferences'' s)),
      (\<lambda>s. case tradingPreferences data of
              None \<Rightarrow> Inr s
            | Some p \<Rightarrow> Inr (attempt (sql_now ev) tradePrefStmt (tradePref_params ev walletAddress p)
                              ''tradingPreferences'' ''Trading preferences'' s)),
      (\<lambda>s. case dismissedItems data of
              None \<Rightarrow> Inr s
            | Some xs \<Rightarrow> each_record (sql_now ev) dismissedStmt (dismissed_params ev walletAddress)
                           ''dismissedItems'' (about ''Dismissed item'' ''key'') xs s),
      (\<lambda>s. case affiliates data of
              None \<Rightarrow> Inr s
            | Some a \<Rightarrow>
                if a = [] then Inr s
                else Inr (attempt (sql_now ev) affiliateStmt (affiliate_params ev walletAddress a)
                            ''affiliates'' ''Affiliates'' s)),
      (\<lambda>s. case transfers data of
              None \<Rightarrow> Inr s
            | Some xs \<Rightarrow> each_record (sql_now ev) browserTransferStmt
                           (browser_transfer_params ev walletAddress)
                           ''transfers'' (unless_unique ''Transfer'' ''id'') xs s),
      (\<lambda>s. case swaps data of
              None \<Rightarrow> Inr s
            | Some xs \<Rightarrow> each_record (sql_now ev) swapStmt (swap_params ev walletAddress)
                           ''swaps'' (unless_unique ''Swap'' ''id'') xs s),
      sync_meta ev ''browser_storage'' walletAddress]"

text \<open>
  The callback: without a primary wallet it throws before any statement. On
  \<^verbatim>\<open>null\<close> and \<^verbatim>\<open>undefined\<close> the optional call \<^verbatim>\<open>data.wallets?.find(...)\<close> yields
  \<^verbatim>\<open>undefined\<close> and the callback throws its own error; on any other value that is not
  an array, \<^verbatim>\<open>find\<close> is not a function and the call itself throws a TypeError.
\<close>

definition no_wallet :: "export_data \<Rightarrow> failure" where
  "no_wallet data =
     (if wallets data = None \<and> wallets_value data \<noteq> JUndefined \<and> wallets_value data \<noteq> JNull
        then NotAFunction else NoWalletFound)"

definition browser_transaction :: "env \<Rightarrow> export_data \<Rightarrow> txn \<Rightarrow> failure option \<times> txn" where
  "browser_transaction ev data s =
     (case primaryWallet data of
        None \<Rightarrow> (Some (no_wallet data), s)
      | Some w \<Rightarrow> steps (browser_sections ev data (js_get w ''address'')) s)"

definition browser_result :: "env \<Rightarrow> sync_result" where
  "browser_result ev =
     \<lparr>success = True, timestamp = iso_now ev,
      synced = [(''wallets'', 0), (''preferences'', 0), (''tradingPreferences'', 0),
                (''dismissedItems'', 0), (''affiliates'', 0), (''transfers'', 0), (''swaps'', 0)],
      errors = []\<rparr>"

text \<open>
  \<^verbatim>\<open>try { transaction() } catch (err) {...}\<close>: a callback that returns commits, one that
  throws rolls the store back to where the transaction began, and the handler then
  marks the result it holds. A commit that the storage layer refuses is outside the
  model.
\<close>

definition transact ::
  "string \<Rightarrow> (txn \<Rightarrow> failure option \<times> txn) \<Rightarrow> database \<Rightarrow> sync_result \<Rightarrow> database \<times> sync_result" where
  "transact label body d res =
     (case body (d, res) of
        (None, s) \<Rightarrow> s
      | (Some e, s) \<Rightarrow> (d, pushed (Plain label e) ((snd s)\<lparr>success := False\<rparr>)))"

definition syncBrowserData :: "env \<Rightarrow> database \<Rightarrow> export_data \<Rightarrow> database \<times> sync_result" where
  "syncBrowserData ev d data =
     transact ''Transaction failed'' (browser_transaction ev data) d (browser_result ev)"

text \<open>
  \<^verbatim>\<open>POST /sync/browser-data\<close>: the status code and the body sent, with the store after
  the request. The guard is \<^verbatim>\<open>!data || !data.wallets || data.wallets.length === 0\<close>; it
  does not ask for an array, and \<^verbatim>\<open>v.length\<close> is the length of a string, the
  \<^verbatim>\<open>length\<close> property of an object and \<^verbatim>\<open>undefined\<close> on a number or a boolean. A request
  without a body is \<open>None\<close>.
\<close>

datatype body = ErrorBody | ResultBody sync_result

fun length_of :: "jsval \<Rightarrow> jsval" where
  "length_of (JStr s) = JNum (int (length s))"
| "length_of (JObj kvs) = js_get kvs ''length''"
| "length_of v = JUndefined"

definition wallets_required :: "export_data \<Rightarrow> bool" where
  "wallets_required data =
     (case wallets data of
        None \<Rightarrow> \<not> truthy (wallets_value data) \<or> length_of (wallets_value data) = JNum 0
      | Some ws \<Rightarrow> length ws = 0)"

definition post_sync_browser_data ::
  "env \<Rightarrow> database \<Rightarrow> export_data option \<Rightarrow> database \<times> nat \<times> body" where
  "post_sync_browser_data ev d req =
     (case req of
        None \<Rightarrow> (d, 400, ErrorBody)
      | Some data \<Rightarrow>
          if wallets_required data then (d, 400, ErrorBody)
          else (case syncBrowserData ev d data of
                  (d', result) \<Rightarrow>
                    (d', if success result then 200 else 500, ResultBody result)))"

section \<open>\<^verbatim>\<open>fetchAccountBalances\<close> and \<^verbatim>\<open>syncBlockchainData\<close>\<close>

text \<open>
  The indexer's answer to \<^verbatim>\<open>/v4/addresses/<address>\<close>, as far as the balance fetcher
  reads it. \<open>None\<close> for the whole answer is a fetch that threw, or a falsy body; both
  end in the empty list.
\<close>

record address_response =
  subaccounts :: "jsobj list option"

definition balance_of :: "string \<Rightarrow> jsobj \<Rightarrow> jsobj" where
  "balance_of blackbottleAddress subaccount =
     [(''walletAddress'', JStr blackbottleAddress),
      (''chainId'', JStr ''blackbottle-mainnet-1''),
      (''tokenSymbol'', JStr ''USDC''),
      (''tokenDenom'',
         JStr ''ibc/8E27BA2D5493AF5636760E354E46004562C46AB7EC0CC4C1CA14E9E20E2545B5''),
      (''balance'', js_get subaccount ''equity''),
      (''availableBalance'', js_or (js_get subaccount ''freeCollateral'') (js_get subaccount ''equity'')),
      (''lockedBalance'', JStr ''0'')]"

definition fetchAccountBalances :: "string \<Rightarrow> address_response option \<Rightarrow> jsobj list" where
  "fetchAccountBalances blackbottleAddress response =
     (case response of
        None \<Rightarrow> []
      | Some data \<Rightarrow>
          (case subaccounts data of
             None \<Rightarrow> []
           | Some subs \<Rightarrow>
               map (balance_of blackbottleAddress)
                   (filter (\<lambda>subaccount. truthy (js_get subaccount ''equity'')) subs)))"

text \<open>What \<^verbatim>\<open>Promise.all\<close> of the six fetchers resolves to.\<close>

record fetched =
  balances :: "jsobj list"
  positions :: "jsobj list"
  orders :: "jsobj list"
  fills :: "jsobj list"
  ledger_transfers :: "jsobj list"
  markets :: "jsobj list"

definition balanceStmt :: stmt where
  "balanceStmt = Insert ''account_balances''
     [''wallet_address'', ''chain_id'', ''token_symbol'', ''token_denom'',
      ''balance'', ''available_balance'', ''locked_balance'', ''last_updated'']
     [Param, Param, Param, Param, Param, Param, Param, NowValue]
     [''wallet_address'', ''chain_id'', ''token_symbol'', ''token_denom'']
     (DoUpdate [(''balance'', Excluded), (''available_balance'', Excluded),
                (''locked_balance'', Excluded), (''last_updated'', Excluded)])"

definition positionStmt :: stmt where
  "positionStmt = Insert ''positions''
     [''wallet_address'', ''position_id'', ''market'', ''side'', ''status'',
      ''size'', ''max_size'', ''entry_price'', ''exit_price'', ''realized_pnl'', ''unrealized_pnl'',
      ''created_at'', ''updated_at'', ''closed_at'']
     [Param, Param, Param, Param, Param, Param, Param, Param, Param, Param, Param, Param, Param,
      Param]
     [''wallet_address'', ''position_id'']
     (DoUpdate [(''size'', Excluded), (''unrealized_pnl'', Excluded), (''updated_at'', Excluded)])"

definition orderStmt :: stmt where
  "orderStmt = Insert ''orders''
     [''wallet_address'', ''order_id'', ''client_id'', ''market'', ''side'', ''type'', ''status'',
      ''price'', ''trigger_price'', ''size'', ''remaining_size'', ''post_only'', ''reduce_only'',
      ''time_in_force'', ''good_til_block'', ''created_at'', ''updated_at'']
     [Param, Param, Param, Param, Param, Param, Param, Param, Param, Param, Param, Param, Param,
      Param, Param, Param, Param]
     [''order_id'']
     (DoUpdate [(''status'', Excluded), (''remaining_size'', Excluded), (''updated_at'', Excluded)])"

definition fillStmt :: stmt where
  "fillStmt = Insert ''fills''
     [''wallet_address'', ''fill_id'', ''order_id'', ''market'', ''side'',
      ''size'', ''price'', ''fee'', ''liquidity'', ''created_at'']
     [Param, Param, Param, Param, Param, Param, Param, Param, Param, Param]
     [''fill_id'']
     DoNothing"

definition transferStmt :: stmt where
  "transferStmt = Insert ''transfers'' transfer_columns
     [Param, Param, Param, Param, Param, Param, Param, Param, Param, Param, Param, Param, Param,
      Param, Param]
     [''tx_hash'']
     (DoUpdate [(''status'', Excluded), (''updated_at'', Excluded)])"

definition marketStmt :: stmt where
  "marketStmt = Insert ''markets''
     [''market_id'', ''base_asset'', ''quote_asset'', ''tick_size'', ''step_size'',
      ''min_order_size'', ''initial_margin_fraction'', ''maintenance_margin_fraction'',
      ''status'', ''updated_at'']
     [Param, Param, Param, Param, Param, Param, Param, Param, Param, NowValue]
     [''market_id'']
     (DoUpdate [(''tick_size'', Excluded), (''step_size'', Excluded), (''min_order_size'', Excluded),
                (''initial_margin_fraction'', Excluded), (''maintenance_margin_fraction'', Excluded),
                (''status'', Excluded), (''updated_at'', Excluded)])"

text \<open>Each statement is run with the properties of the record, in this order.\<close>

definition props :: "string list \<Rightarrow> jsobj \<Rightarrow> jsval list" where
  "props ks x = map (js_get x) ks"

definition balance_props :: "string list" where
  "balance_props =
     [''walletAddress'', ''chainId'', ''tokenSymbol'', ''tokenDenom'', ''balance'',
      ''availableBalance'', ''lockedBalance'']"

definition position_props :: "string list" where
  "position_props =
     [''walletAddress'', ''positionId'', ''market'', ''side'', ''status'', ''size'', ''maxSize'',
      ''entryPrice'', ''exitPrice'', ''realizedPnl'', ''unrealizedPnl'', ''createdAt'',
      ''updatedAt'', ''closedAt'']"

definition order_props :: "string list" where
  "order_props =
     [''walletAddress'', ''orderId'', ''clientId'', ''market'', ''side'', ''type'', ''status'',
      ''price'', ''triggerPrice'', ''size'', ''remainingSize'', ''postOnly'', ''reduceOnly'',
      ''timeInForce'', ''goodTilBlock'', ''createdAt'', ''updatedAt'']"

definition fill_props :: "string list" where
  "fill_props =
     [''walletAddress'', ''fillId'', ''orderId'', ''market'', ''side'', ''size'', ''price'',
      ''fee'', ''liquidity'', ''createdAt'']"

definition transfer_props :: "string list" where
  "transfer_props =
     [''walletAddress'', ''transferId'', ''txHash'', ''type'', ''status'', ''fromAddress'',
      ''toAddress'', ''fromChain'', ''toChain'', ''amount'', ''tokenSymbol'', ''tokenDenom'',
      ''fee'', ''createdAt'', ''updatedAt'']"

definition market_props :: "string list" where
  "market_props =
     [''marketId'', ''baseAsset'', ''quoteAsset'', ''tickSize'', ''stepSize'', ''minOrderSize'',
      ''initialMarginFraction'', ''maintenanceMarginFraction'', ''status'']"

text \<open>
  The six loops of the callback, each with its statement prepared just before it, and
  the callback: the loops in order, then the ledger row.
\<close>

abbreviation balance_loop :: "env \<Rightarrow> jsobj list \<Rightarrow> txn \<Rightarrow> failure + txn" where
  "balance_loop ev xs \<equiv>
     each_record (sql_now ev) balanceStmt (props balance_props) ''balances'' (always ''Balance'') xs"

abbreviation position_loop :: "env \<Rightarrow> jsobj list \<Rightarrow> txn \<Rightarrow> failure + txn" where
  "position_loop ev xs \<equiv>
     each_record (sql_now ev) positionStmt (props position_props) ''positions''
       (about ''Position'' ''positionId'') xs"

abbreviation order_loop :: "env \<Rightarrow> jsobj list \<Rightarrow> txn \<Rightarrow> failure + txn" where
  "order_loop ev xs \<equiv>
     each_record (sql_now ev) orderStmt (props order_props) ''orders''
       (unless_unique ''Order'' ''orderId'') xs"

abbreviation fill_loop :: "env \<Rightarrow> jsobj list \<Rightarrow> txn \<Rightarrow> failure + txn" where
  "fill_loop ev xs \<equiv>
     each_record (sql_now ev) fillStmt (props fill_props) ''fills''
       (unless_unique ''Fill'' ''fillId'') xs"

abbreviation transfer_loop :: "env \<Rightarrow> jsobj list \<Rightarrow> txn \<Rightarrow> failure + txn" where
  "transfer_loop ev xs \<equiv>
     each_record (sql_now ev) transferStmt (props transfer_props) ''transfers''
       (unless_unique ''Transfer'' ''transferId'') xs"

abbreviation market_loop :: "env \<Rightarrow> jsobj list \<Rightarrow> txn \<Rightarrow> failure + txn" where
  "market_loop ev xs \<equiv>
     each_record (sql_now ev) marketStmt (props market_props) ''markets''
       (about ''Market'' ''marketId'') xs"

definition chain_sections :: "env \<Rightarrow> string \<Rightarrow> fetched \<Rightarrow> (txn \<Rightarrow> failure + txn) list" where
  "chain_sections ev blackbottleAddress f =
     [balance_loop ev (balances f),
      position_loop ev (positions f),
      order_loop ev (orders f),
      fill_loop ev (fills f),
      transfer_loop ev (ledger_transfers f),
      market_loop ev (markets f),
      sync_meta ev ''blockchain'' (JStr blackbottleAddress)]"

definition chain_result :: "env \<Rightarrow> sync_result" where
  "chain_result ev =
     \<lparr>success = True, timestamp = iso_now ev,
      synced = [(''balances'', 0), (''positions'', 0), (''orders'', 0), (''fills'', 0),
                (''transfers'', 0), (''markets'', 0)],
      errors = []\<rparr>"

definition syncBlockchainData ::
  "env \<Rightarrow> database \<Rightarrow> string \<Rightarrow> fetched \<Rightarrow> database \<times> sync_result" where
  "syncBlockchainData ev d blackbottleAddress f =
     transact ''Sync failed'' (steps (chain_sections ev blackbottleAddress f)) d (chain_result ev)"

section \<open>Auxiliary notions\<close>

text \<open>The row a statement would insert, when its table exists and its parameters bind.\<close>

definition candidate :: "string \<Rightarrow> database \<Rightarrow> stmt \<Rightarrow> jsval list \<Rightarrow> row option" where
  "candidate now d st ps =
     (case schema d (tbl st) of
        None \<Rightarrow> None
      | Some td \<Rightarrow>
          (case bind_values now (vals st) ps of
             Inl e \<Rightarrow> None
           | Inr vs \<Rightarrow> Some (new_row now td (cols st) vs)))"

text \<open>
  The statements a pass can run inside a \<^verbatim>\<open>try\<close>, each with the counter it bumps:
  for \<^verbatim>\<open>syncBrowserData\<close> with wallet address \<open>A\<close>, and for \<^verbatim>\<open>syncBlockchainData\<close>.
\<close>

definition browser_act :: "env \<Rightarrow> jsval \<Rightarrow> stmt \<Rightarrow> jsval list \<Rightarrow> string \<Rightarrow> bool" where
  "browser_act ev A st ps k \<longleftrightarrow>
     (st = walletStmt \<and> k = ''wallets'' \<and> (\<exists>w. ps = wallet_params A w)) \<or>
     (st = prefStmt \<and> k = ''preferences'' \<and> (\<exists>p. ps = pref_params A p)) \<or>
     (st = tradePrefStmt \<and> k = ''tradingPreferences'' \<and> (\<exists>p. ps = tradePref_params ev A p)) \<or>
     (st = dismissedStmt \<and> k = ''dismissedItems'' \<and> (\<exists>x. ps = dismissed_params ev A x)) \<or>
     (st = affiliateStmt \<and> k = ''affiliates'' \<and> (\<exists>a. ps = affiliate_params ev A a)) \<or>
     (st = browserTransferStmt \<and> k = ''transfers'' \<and> (\<exists>x. ps = browser_transfer_params ev A x)) \<or>
     (st = swapStmt \<and> k = ''swaps'' \<and> (\<exists>x. ps = swap_params ev A x))"

definition chain_act :: "stmt \<Rightarrow> jsval list \<Rightarrow> string \<Rightarrow> bool" where
  "chain_act st ps k \<longleftrightarrow>
     (st = balanceStmt \<and> k = ''balances'' \<and> (\<exists>x. ps = props balance_props x)) \<or>
     (st = positionStmt \<and> k = ''positions'' \<and> (\<exists>x. ps = props position_props x)) \<or>
     (st = orderStmt \<and> k = ''orders'' \<and> (\<exists>x. ps = props order_props x)) \<or>
     (st = fillStmt \<and> k = ''fills'' \<and> (\<exists>x. ps = props fill_props x)) \<or>
     (st = transferStmt \<and> k = ''transfers'' \<and> (\<exists>x. ps = props transfer_props x)) \<or>
     (st = marketStmt \<and> k = ''markets'' \<and> (\<exists>x. ps = props market_props x))"

section \<open>Example stores and batches\<close>

text \<open>
  Two instants, with a \<^verbatim>\<open>JSON.stringify\<close> that is right on the empty object, the only
  value the examples serialise; a store fresh from \<^verbatim>\<open>schema.sql\<close> and one with the
  three conflict targets declared.
\<close>

definition example_env :: env where
  "example_env = \<lparr>sql_now = ''2026-01-01 00:00:00'', iso_now = ''2026-01-01T00:00:00.000Z'',
                   stringify = (\<lambda>v. ''{}'')\<rparr>"


definition empty_store :: database where
  "empty_store = \<lparr>schema = schema_sql, rows = (\<lambda>t. [])\<rparr>"

definition no_data :: export_data where
  "no_data = \<lparr>wallets = None, wallets_value = JUndefined, preferences = None,
               tradingPreferences = None,
               dismissedItems = None, affiliates = None, transfers = None, swaps = None\<rparr>"

definition nothing_fetched :: fetched where
  "nothing_fetched = \<lparr>balances = [], positions = [], orders = [], fills = [],
                       ledger_transfers = [], markets = []\<rparr>"

definition partial_batch :: export_data where
  "partial_batch = no_data\<lparr>wallets := Some
     [[(''type'', JNull), (''address'', JStr ''0xbad'')],
      [(''type'', JStr ''dydx''), (''address'', JStr ''dydx1abc'')],
      [(''type'', JStr ''evm''), (''address'', JStr ''0xabc'')]]\<rparr>"

definition unaddressed_batch :: export_data where
  "unaddressed_batch = no_data\<lparr>wallets := Some
     [[(''type'', JStr ''dydx'')],
      [(''type'', JStr ''evm''), (''address'', JStr ''0xabc'')]]\<rparr>"

definition held_position :: row where
  "held_position = (\<lambda>c. Null)
     (''wallet_address'' := Text ''bb1'', ''position_id'' := Text ''bb1-BTC-USD'',
      ''market'' := Text ''BTC-USD'', ''side'' := Text ''LONG'', ''status'' := Text ''OPEN'',
      ''size'' := Text ''1'', ''unrealized_pnl'' := Text ''0'')"

definition position_store :: database where
  "position_store = \<lparr>schema = schema_sql, rows = (\<lambda>t. [])(''positions'' := [held_position])\<rparr>"

definition grown_position :: fetched where
  "grown_position = nothing_fetched\<lparr>positions :=
     [[(''walletAddress'', JStr ''bb1''), (''positionId'', JStr ''bb1-BTC-USD''),
       (''market'', JStr ''BTC-USD''), (''side'', JStr ''LONG''), (''status'', JStr ''OPEN''),
       (''size'', JStr ''2''), (''maxSize'', JStr ''2''), (''entryPrice'', JStr ''50000''),
       (''exitPrice'', JNull), (''realizedPnl'', JStr ''0''), (''unrealizedPnl'', JStr ''10''),
       (''createdAt'', JStr ''2026-01-01T00:00:00.000Z''),
       (''updatedAt'', JStr ''2026-01-01T00:00:00.000Z''), (''closedAt'', JNull)]]\<rparr>"

definition owned_by :: "database \<Rightarrow> jsval \<Rightarrow> database \<Rightarrow> bool" where
  "owned_by d A d' \<longleftrightarrow>
     list_all (\<lambda>t. list_all (\<lambda>row. row \<in> set (rows d t) \<or> bind A = Inr (row ''wallet_address''))
                             (rows d' t))
       [''user_preferences'', ''trading_preferences'', ''dismissed_items'', ''affiliates'',
        ''transfers'', ''swaps'', ''sync_metadata'']"

definition full_batch :: export_data where
  "full_batch = no_data\<lparr>
     wallets := Some [[(''type'', JStr ''evm''), (''address'', JStr ''0xabc''), (''chainId'', JStr ''1'')],
                      [(''type'', JStr ''dydx''), (''address'', JStr ''dydx1abc'')]],
     preferences := Some [(''locale'', JStr ''en''), (''hasAcknowledgedTerms'', JBool True)],
     tradingPreferences := Some [(''displayUnit'', JStr ''USD'')],
     dismissedItems := Some [[(''key'', JStr ''welcome_dialog'')]]\<rparr>"

text \<open>
  Every row of \<open>rs\<close> is still there, at its place, and differs at most in the columns
  \<open>S\<close>.
\<close>

definition kept_except :: "string list \<Rightarrow> row list \<Rightarrow> row list \<Rightarrow> bool" where
  "kept_except S rs rs' \<longleftrightarrow>
     length rs \<le> length rs' \<and> (\<forall>i<length rs. \<forall>c. c \<notin> set S \<longrightarrow> (rs' ! i) c = (rs ! i) c)"


definition pending_transfer :: export_data where
  "pending_transfer = no_data\<lparr>
     wallets := Some [[(''type'', JStr ''dydx''), (''address'', JStr ''dydx1abc'')]],
     transfers := Some [[(''id'', JStr ''t1''), (''txHash'', JStr ''0xhash''),
                         (''status'', JStr ''PENDING''), (''amount'', JStr ''25''),
                         (''token'', JStr ''USDC'')]]\<rparr>"

definition confirmed_transfer :: export_data where
  "confirmed_transfer = no_data\<lparr>
     wallets := Some [[(''type'', JStr ''dydx''), (''address'', JStr ''dydx1abc'')]],
     transfers := Some [[(''id'', JStr ''t1''), (''txHash'', JStr ''0xhash''),
                         (''status'', JStr ''CONFIRMED''), (''amount'', JStr ''25''),
                         (''token'', JStr ''USDC'')]]\<rparr>"

definition confirmed_fetched :: fetched where
  "confirmed_fetched = nothing_fetched\<lparr>ledger_transfers :=
     [[(''walletAddress'', JStr ''dydx1abc''), (''transferId'', JStr ''t1''),
       (''txHash'', JStr ''0xhash''), (''type'', JStr ''TRANSFER''), (''status'', JStr ''CONFIRMED''),
       (''fromAddress'', JNull), (''toAddress'', JNull),
       (''fromChain'', JStr ''blackbottle-mainnet-1''), (''toChain'', JStr ''blackbottle-mainnet-1''),
       (''amount'', JStr ''25''), (''tokenSymbol'', JStr ''USDC''), (''tokenDenom'', JNull),
       (''fee'', JNull), (''createdAt'', JStr ''2026-01-02T00:00:00.000Z''),
       (''updatedAt'', JStr ''2026-01-02T00:00:00.000Z'')]]\<rparr>"

fun label_of :: "errmsg \<Rightarrow> string" where
  "label_of (About l x e) = l"
| "label_of (Plain l e) = l"

text \<open>The counter of a category plus the number of messages reported for it.\<close>

definition accounted_for :: "string \<Rightarrow> string \<Rightarrow> sync_result \<Rightarrow> nat" where
  "accounted_for k L r = count_of (synced r) k + length (filter (\<lambda>m. label_of m = L) (errors r))"

text \<open>What a section of the callback adds to that sum, when it returns.\<close>

definition adds_at_most :: "string \<Rightarrow> string \<Rightarrow> (txn \<Rightarrow> failure + txn) \<Rightarrow> nat \<Rightarrow> bool" where
  "adds_at_most k L f n \<longleftrightarrow>
     (\<forall>s s'. f s = Inr s' \<longrightarrow> accounted_for k L (snd s') \<le> accounted_for k L (snd s) + n)"

definition adds_exactly :: "string \<Rightarrow> string \<Rightarrow> (txn \<Rightarrow> failure + txn) \<Rightarrow> nat \<Rightarrow> bool" where
  "adds_exactly k L f n \<longleftrightarrow>
     (\<forall>s s'. f s = Inr s' \<and> k \<in> set (map fst (synced (snd s))) \<longrightarrow>
         k \<in> set (map fst (synced (snd s'))) \<and>
         accounted_for k L (snd s') = accounted_for k L (snd s) + n)"

definition batch :: "jsobj list option \<Rightarrow> nat" where
  "batch xs = (case xs of None \<Rightarrow> 0 | Some l \<Rightarrow> length l)"

definition once :: "jsobj option \<Rightarrow> nat" where
  "once x = (case x of None \<Rightarrow> 0 | Some p \<Rightarrow> 1)"

text \<open>
  The categories of a pass: the counter, the table, the prefix of the messages, whether
  the \<^verbatim>\<open>catch\<close> block reports every error, and the number of records in the batch.
\<close>

definition browser_categories :: "export_data \<Rightarrow> (string \<times> string \<times> string \<times> bool \<times> nat) list" where
  "browser_categories data =
     [(''wallets'', ''user_wallets'', ''Wallet'', True, batch (wallets data)),
      (''preferences'', ''user_preferences'', ''Preferences'', True, once (preferences data)),
      (''tradingPreferences'', ''trading_preferences'', ''Trading preferences'', True,
         once (tradingPreferences data)),
      (''dismissedItems'', ''dismissed_items'', ''Dismissed item'', True,
         batch (dismissedItems data)),
      (''affiliates'', ''affiliates'', ''Affiliates'', True,
         (case affiliates data of None \<Rightarrow> 0 | Some a \<Rightarrow> if a = [] then 0 else 1)),
      (''transfers'', ''transfers'', ''Transfer'', False, batch (transfers data)),
      (''swaps'', ''swaps'', ''Swap'', False, batch (swaps data))]"

definition sizes :: "(string \<times> string \<times> string \<times> bool \<times> nat) list \<Rightarrow> string \<Rightarrow> nat list" where
  "sizes cats k = map (\<lambda>(k', t, L, reports_all, n). if k' = k then n else 0) cats @ [0]"

definition browser_pairs :: "(string \<times> string) list" where
  "browser_pairs =
     [(''wallets'', ''Wallet''), (''preferences'', ''Preferences''),
      (''tradingPreferences'', ''Trading preferences''), (''dismissedItems'', ''Dismissed item''),
      (''affiliates'', ''Affiliates''), (''transfers'', ''Transfer''), (''swaps'', ''Swap'')]"

definition browser_total_pairs :: "(string \<times> string) list" where
  "browser_total_pairs =
     [(''wallets'', ''Wallet''), (''preferences'', ''Preferences''),
      (''tradingPreferences'', ''Trading preferences''), (''dismissedItems'', ''Dismissed item''),
      (''affiliates'', ''Affiliates'')]"



definition addressless_batch :: export_data where
  "addressless_batch = no_data\<lparr>wallets := Some [[(''type'', JStr ''dydx'')]]\<rparr>"

definition mixed_answer :: address_response where
  "mixed_answer = \<lparr>subaccounts = Some
     [[(''equity'', JStr ''100'')],
      [(''equity'', JStr ''50''), (''freeCollateral'', JStr ''20'')],
      [(''equity'', JStr ''''), (''freeCollateral'', JStr ''7'')]]\<rparr>"

definition ownerless :: "export_data \<Rightarrow> bool" where
  "ownerless data =
     (case primaryWallet data of
        None \<Rightarrow> True
      | Some w \<Rightarrow> (case bind (js_get w ''address'') of Inl e \<Rightarrow> True | Inr v \<Rightarrow> v = Null))"

definition one_balance :: fetched where
  "one_balance = nothing_fetched\<lparr>balances :=
     fetchAccountBalances ''bb1'' (Some \<lparr>subaccounts = Some [[(''equity'', JStr ''100'')]]\<rparr>)\<rparr>"

definition built :: "string \<Rightarrow> table_def \<Rightarrow> stmt \<Rightarrow> jsval list \<Rightarrow> row option" where
  "built now td st ps =
     (case bind_values now (vals st) ps of
        Inl e \<Rightarrow> None
      | Inr vs \<Rightarrow>
          (let n = new_row now td (cols st) vs in
           if list_ex (\<lambda>c. notnull c \<and> n (cname c) = Null) (columns td) then None else Some n))"









section \<open>Properties of the engine and of the passes\<close>

lemma run_cases:
  assumes "run now d st ps = Inr d'"
  obtains n where "candidate now d st ps = Some n"
    and "list_ex (\<lambda>r. same_key (target st) r n) (rows d (tbl st))"
    and "resolution st = DoNothing" and "d' = d"
  | n sets where "candidate now d st ps = Some n"
    and "list_ex (\<lambda>r. same_key (target st) r n) (rows d (tbl st))"
    and "resolution st = DoUpdate sets"
    and "d' = d\<lparr>rows := (rows d)(tbl st :=
                 map (\<lambda>r. if same_key (target st) r n then assign now sets n r else r)
                     (rows d (tbl st)))\<rparr>"
  | n where "candidate now d st ps = Some n"
    and "\<not> list_ex (\<lambda>r. same_key (target st) r n) (rows d (tbl st))"
    and "d' = d\<lparr>rows := (rows d)(tbl st := rows d (tbl st) @ [n])\<rparr>"
  using assms
  by (auto simp: run_def candidate_def Let_def
           split: option.splits sum.splits if_splits resolution.splits)

lemma run_schema: "run now d st ps = Inr d' \<Longrightarrow> schema d' = schema d"
  by (erule run_cases) auto

lemma run_frame: "run now d st ps = Inr d' \<Longrightarrow> t \<noteq> tbl st \<Longrightarrow> rows d' t = rows d t"
  by (erule run_cases) auto

lemma prepare_Inr: "prepare d st = Inr st' \<Longrightarrow> st' = st"
  by (auto simp: prepare_def split: option.splits if_splits)

lemma prepare_schema: "schema d' = schema d \<Longrightarrow> prepare d' st = prepare d st"
  by (simp add: prepare_def)

lemma run_each_inv:
  assumes "P s"
    and ok: "\<And>s x d'. P s \<Longrightarrow> x \<in> set xs \<Longrightarrow> exec (fst s) x = Inr d' \<Longrightarrow> P (d', counted k (snd s))"
    and push: "\<And>s m. P s \<Longrightarrow> P (fst s, pushed m (snd s))"
  shows "P (run_each exec k report xs s)"
  using assms
proof (induction xs arbitrary: s)
  case Nil
  then show ?case by simp
next
  case (Cons x xs)
  let ?s1 = "case exec (fst s) x of
               Inr d' \<Rightarrow> (d', counted k (snd s))
             | Inl e \<Rightarrow> (fst s, (case report x e of None \<Rightarrow> snd s | Some m \<Rightarrow> pushed m (snd s)))"
  have "P ?s1"
  proof (cases "exec (fst s) x")
    case (Inr d')
    then show ?thesis using Cons.prems(2) [OF Cons.prems(1), of x d'] by simp
  next
    case (Inl e)
    then show ?thesis
      using Cons.prems(1) Cons.prems(3) [OF Cons.prems(1)]
      by (cases "report x e") simp_all
  qed
  moreover have "run_each exec k report (x # xs) s = run_each exec k report xs ?s1"
    by simp
  ultimately show ?case
    using Cons.IH [of ?s1] Cons.prems(2,3) by (metis list.set_intros(2))
qed

lemma steps_inv:
  assumes "P s"
    and step: "\<And>f s s'. f \<in> set fs \<Longrightarrow> P s \<Longrightarrow> f s = Inr s' \<Longrightarrow> P s'"
  shows "P (snd (steps fs s))"
  using assms
proof (induction fs arbitrary: s)
  case Nil
  then show ?case by simp
next
  case (Cons f fs)
  show ?case
  proof (cases "f s")
    case (Inl e)
    then show ?thesis using Cons.prems(1) by simp
  next
    case (Inr s1)
    have "P s1" using Cons.prems(2) [of f s s1] Cons.prems(1) Inr by simp
    then have "P (snd (steps fs s1))"
      using Cons.IH [of s1] Cons.prems(2) by (metis list.set_intros(2))
    then show ?thesis using Inr by simp
  qed
qed

lemma each_record_inv:
  assumes "each_record now st params k report xs s = Inr s'" and "P s"
    and "\<And>s x d'. P s \<Longrightarrow> x \<in> set xs \<Longrightarrow> run now (fst s) st (params x) = Inr d' \<Longrightarrow> P (d', counted k (snd s))"
    and "\<And>s m. P s \<Longrightarrow> P (fst s, pushed m (snd s))"
  shows "P s'"
proof -
  from assms(1) obtain st' where p: "prepare (fst s) st = Inr st'"
    and s': "s' = run_each (\<lambda>d x. run now d st' (params x)) k report xs s"
    by (auto simp: each_record_def split: sum.splits)
  have "st' = st" using p by (rule prepare_Inr)
  with s' show ?thesis
    using run_each_inv [of P s xs "\<lambda>d x. run now d st (params x)" k report] assms(2-4) by simp
qed

lemma attempt_inv:
  assumes "P s"
    and "\<And>d'. run now (fst s) st ps = Inr d' \<Longrightarrow> P (d', counted k (snd s))"
    and "\<And>m. P (fst s, pushed m (snd s))"
  shows "P (attempt now st ps k label s)"
  using assms
  by (auto simp: attempt_def split: sum.splits dest: prepare_Inr)

lemma browser_sections_inv:
  assumes P0: "P s0"
    and act: "\<And>s st ps k d'. P s \<Longrightarrow> browser_act ev A st ps k \<Longrightarrow>
                 run (sql_now ev) (fst s) st ps = Inr d' \<Longrightarrow> P (d', counted k (snd s))"
    and push: "\<And>s m. P s \<Longrightarrow> P (fst s, pushed m (snd s))"
    and meta: "\<And>s n d'. P s \<Longrightarrow>
                 run (sql_now ev) (fst s) (syncMetaStmt ''browser_storage'') [A, JNum n] = Inr d' \<Longrightarrow>
                 P (d', snd s)"
  shows "P (snd (steps (browser_sections ev data A) s0))"
proof (rule steps_inv [of P, OF P0])
  fix f s s'
  assume f: "f \<in> set (browser_sections ev data A)" and Ps: "P s" and fs: "f s = Inr s'"
  have loop: "P s'"
    if "each_record (sql_now ev) st params k report xs s = Inr s'"
      and "\<And>x. browser_act ev A st (params x) k"
    for st params k report xs
    using that(1) Ps
  proof (rule each_record_inv [where P = P])
    fix s x d'
    assume "P s" and "run (sql_now ev) (fst s) st (params x) = Inr d'"
    then show "P (d', counted k (snd s))" using act that(2) by blast
  next
    fix s m
    assume "P s"
    then show "P (fst s, pushed m (snd s))" by (rule push)
  qed
  have once: "P (attempt (sql_now ev) st ps k label s)"
    if "browser_act ev A st ps k" for st ps k label
    using Ps
  proof (rule attempt_inv [where P = P])
    fix d'
    assume "run (sql_now ev) (fst s) st ps = Inr d'"
    then show "P (d', counted k (snd s))" using act [OF Ps that] by blast
  next
    fix m
    show "P (fst s, pushed m (snd s))" using Ps by (rule push)
  qed
  from f consider
      (w) "f = each_record (sql_now ev) walletStmt (wallet_params A) ''wallets''
                 (about ''Wallet'' ''address'') (case wallets data of None \<Rightarrow> [] | Some ws \<Rightarrow> ws)"
    | (p) "f = (\<lambda>s. case preferences data of
              None \<Rightarrow> Inr s
            | Some p \<Rightarrow> Inr (attempt (sql_now ev) prefStmt (pref_params A p)
                              ''preferences'' ''Preferences'' s))"
    | (t) "f = (\<lambda>s. case tradingPreferences data of
              None \<Rightarrow> Inr s
            | Some p \<Rightarrow> Inr (attempt (sql_now ev) tradePrefStmt (tradePref_params ev A p)
                              ''tradingPreferences'' ''Trading preferences'' s))"
    | (d) "f = (\<lambda>s. case dismissedItems data of
              None \<Rightarrow> Inr s
            | Some xs \<Rightarrow> each_record (sql_now ev) dismissedStmt (dismissed_params ev A)
                           ''dismissedItems'' (about ''Dismissed item'' ''key'') xs s)"
    | (a) "f = (\<lambda>s. case affiliates data of
              None \<Rightarrow> Inr s
            | Some a \<Rightarrow>
                if a = [] then Inr s
                else Inr (attempt (sql_now ev) affiliateStmt (affiliate_params ev A a)
                            ''affiliates'' ''Affiliates'' s))"
    | (x) "f = (\<lambda>s. case transfers data of
              None \<Rightarrow> Inr s
            | Some xs \<Rightarrow> each_record (sql_now ev) browserTransferStmt
                           (browser_transfer_params ev A)
                           ''transfers'' (unless_unique ''Transfer'' ''id'') xs s)"
    | (sw) "f = (\<lambda>s. case swaps data of
              None \<Rightarrow> Inr s
            | Some xs \<Rightarrow> each_record (sql_now ev) swapStmt (swap_params ev A)
                           ''swaps'' (unless_unique ''Swap'' ''id'') xs s)"
    | (m) "f = sync_meta ev ''browser_storage'' A"
    by (auto simp: browser_sections_def)
  then show "P s'"
  proof cases
    case w
    show ?thesis
      by (rule loop [OF fs [unfolded w]]) (auto simp: browser_act_def)
  next
    case p
    show ?thesis
    proof (cases "preferences data")
      case None
      then show ?thesis using fs Ps unfolding p by simp
    next
      case (Some q)
      then have "s' = attempt (sql_now ev) prefStmt (pref_params A q) ''preferences'' ''Preferences'' s"
        using fs unfolding p by simp
      then show ?thesis using once [of prefStmt "pref_params A q" "''preferences''"]
        by (auto simp: browser_act_def)
    qed
  next
    case t
    show ?thesis
    proof (cases "tradingPreferences data")
      case None
      then show ?thesis using fs Ps unfolding t by simp
    next
      case (Some q)
      then have "s' = attempt (sql_now ev) tradePrefStmt (tradePref_params ev A q)
                        ''tradingPreferences'' ''Trading preferences'' s"
        using fs unfolding t by simp
      then show ?thesis
        using once [of tradePrefStmt "tradePref_params ev A q" "''tradingPreferences''"]
        by (auto simp: browser_act_def)
    qed
  next
    case d
    show ?thesis
    proof (cases "dismissedItems data")
      case None
      then show ?thesis using fs Ps unfolding d by simp
    next
      case (Some xs)
      with fs have "each_record (sql_now ev) dismissedStmt (dismissed_params ev A)
                      ''dismissedItems'' (about ''Dismissed item'' ''key'') xs s = Inr s'"
        unfolding d by simp
      then show ?thesis by (rule loop) (auto simp: browser_act_def)
    qed
  next
    case a
    show ?thesis
    proof (cases "affiliates data")
      case None
      then show ?thesis using fs Ps unfolding a by simp
    next
      case (Some q)
      show ?thesis
      proof (cases "q = []")
        case True
        then show ?thesis using Some fs Ps unfolding a by simp
      next
        case False
        then have "s' = attempt (sql_now ev) affiliateStmt (affiliate_params ev A q)
                          ''affiliates'' ''Affiliates'' s"
          using Some fs unfolding a by simp
        then show ?thesis
          using once [of affiliateStmt "affiliate_params ev A q" "''affiliates''"]
          by (auto simp: browser_act_def)
      qed
    qed
  next
    case x
    show ?thesis
    proof (cases "transfers data")
      case None
      then show ?thesis using fs Ps unfolding x by simp
    next
      case (Some xs)
      with fs have "each_record (sql_now ev) browserTransferStmt (browser_transfer_params ev A)
                      ''transfers'' (unless_unique ''Transfer'' ''id'') xs s = Inr s'"
        unfolding x by simp
      then show ?thesis by (rule loop) (auto simp: browser_act_def)
    qed
  next
    case sw
    show ?thesis
    proof (cases "swaps data")
      case None
      then show ?thesis using fs Ps unfolding sw by simp
    next
      case (Some xs)
      with fs have "each_record (sql_now ev) swapStmt (swap_params ev A)
                      ''swaps'' (unless_unique ''Swap'' ''id'') xs s = Inr s'"
        unfolding sw by simp
      then show ?thesis by (rule loop) (auto simp: browser_act_def)
    qed
  next
    case m
    from fs obtain d' where "run (sql_now ev) (fst s) (syncMetaStmt ''browser_storage'')
                                 [A, JNum (int (totalRecords (snd s)))] = Inr d'"
      and "s' = (d', snd s)"
      unfolding m by (auto simp: sync_meta_def split: sum.splits dest!: prepare_Inr)
    then show ?thesis using meta [OF Ps] by simp
  qed
qed

lemma chain_sections_inv:
  assumes P0: "P s0"
    and act: "\<And>s st ps k d'. P s \<Longrightarrow> chain_act st ps k \<Longrightarrow>
                 run (sql_now ev) (fst s) st ps = Inr d' \<Longrightarrow> P (d', counted k (snd s))"
    and push: "\<And>s m. P s \<Longrightarrow> P (fst s, pushed m (snd s))"
    and meta: "\<And>s n d'. P s \<Longrightarrow>
                 run (sql_now ev) (fst s) (syncMetaStmt ''blockchain'') [JStr a, JNum n] = Inr d' \<Longrightarrow>
                 P (d', snd s)"
  shows "P (snd (steps (chain_sections ev a f) s0))"
proof (rule steps_inv [of P, OF P0])
  fix g s s'
  assume g: "g \<in> set (chain_sections ev a f)" and Ps: "P s" and gs: "g s = Inr s'"
  have loop: "P s'"
    if "each_record (sql_now ev) st params k report xs s = Inr s'"
      and "\<And>x. chain_act st (params x) k"
    for st params k report xs
    using that(1) Ps
  proof (rule each_record_inv [where P = P])
    fix s x d'
    assume "P s" and "run (sql_now ev) (fst s) st (params x) = Inr d'"
    then show "P (d', counted k (snd s))" using act that(2) by blast
  next
    fix s m
    assume "P s"
    then show "P (fst s, pushed m (snd s))" by (rule push)
  qed
  from g consider
      (b) "g = each_record (sql_now ev) balanceStmt (props balance_props) ''balances''
                (always ''Balance'') (balances f)"
    | (p) "g = each_record (sql_now ev) positionStmt (props position_props) ''positions''
                (about ''Position'' ''positionId'') (positions f)"
    | (o) "g = each_record (sql_now ev) orderStmt (props order_props) ''orders''
                (unless_unique ''Order'' ''orderId'') (orders f)"
    | (fi) "g = each_record (sql_now ev) fillStmt (props fill_props) ''fills''
                (unless_unique ''Fill'' ''fillId'') (fills f)"
    | (t) "g = each_record (sql_now ev) transferStmt (props transfer_props) ''transfers''
                (unless_unique ''Transfer'' ''transferId'') (ledger_transfers f)"
    | (mk) "g = each_record (sql_now ev) marketStmt (props market_props) ''markets''
                (about ''Market'' ''marketId'') (markets f)"
    | (m) "g = sync_meta ev ''blockchain'' (JStr a)"
    by (auto simp: chain_sections_def)
  then show "P s'"
  proof cases
    case b
    show ?thesis by (rule loop [OF gs [unfolded b]]) (simp add: chain_act_def, blast)
  next
    case p
    show ?thesis by (rule loop [OF gs [unfolded p]]) (simp add: chain_act_def, blast)
  next
    case o
    show ?thesis by (rule loop [OF gs [unfolded o]]) (simp add: chain_act_def, blast)
  next
    case fi
    show ?thesis by (rule loop [OF gs [unfolded fi]]) (simp add: chain_act_def, blast)
  next
    case t
    show ?thesis by (rule loop [OF gs [unfolded t]]) (simp add: chain_act_def, blast)
  next
    case mk
    show ?thesis by (rule loop [OF gs [unfolded mk]]) (simp add: chain_act_def, blast)
  next
    case m
    from gs obtain d' where "run (sql_now ev) (fst s) (syncMetaStmt ''blockchain'')
                                 [JStr a, JNum (int (totalRecords (snd s)))] = Inr d'"
      and "s' = (d', snd s)"
      unfolding m by (auto simp: sync_meta_def split: sum.splits dest!: prepare_Inr)
    then show ?thesis using meta [OF Ps] by simp
  qed
qed

lemma counted_simps [simp]:
  "success (counted k r) = success r" "errors (counted k r) = errors r"
  "timestamp (counted k r) = timestamp r" "synced (counted k r) = bump k (synced r)"
  by (simp_all add: counted_def)

lemma pushed_simps [simp]:
  "success (pushed m r) = success r" "errors (pushed m r) = errors r @ [m]"
  "timestamp (pushed m r) = timestamp r" "synced (pushed m r) = synced r"
  by (simp_all add: pushed_def)

lemma browser_keeps:
  "schema (fst (snd (steps (browser_sections ev data A) (d, r)))) = schema d \<and>
   success (snd (snd (steps (browser_sections ev data A) (d, r)))) = success r"
  by (rule browser_sections_inv [where P = "\<lambda>s. schema (fst s) = schema d \<and> success (snd s) = success r"])
     (auto dest: run_schema)

lemma chain_keeps:
  "schema (fst (snd (steps (chain_sections ev a f) (d, r)))) = schema d \<and>
   success (snd (snd (steps (chain_sections ev a f) (d, r)))) = success r"
  by (rule chain_sections_inv [where P = "\<lambda>s. schema (fst s) = schema d \<and> success (snd s) = success r"])
     (auto dest: run_schema)

lemma success_browser_result [simp]: "success (browser_result ev)"
  by (simp add: browser_result_def)

lemma success_chain_result [simp]: "success (chain_result ev)"
  by (simp add: chain_result_def)

lemma transact_cases:
  obtains (commit) s where "body (d, r) = (None, s)" "transact label body d r = s"
  | (abort) e s where "body (d, r) = (Some e, s)"
      "transact label body d r = (d, pushed (Plain label e) ((snd s)\<lparr>success := False\<rparr>))"
proof -
  obtain out s where "body (d, r) = (out, s)"
    by (cases "body (d, r)")
  then show ?thesis
    by (cases out) (auto simp: transact_def intro: that)
qed

lemma browser_committed_success:
  assumes "browser_transaction ev data (d, browser_result ev) = (None, s)"
  shows "success (snd s)" and "schema (fst s) = schema d"
proof -
  from assms obtain w where "steps (browser_sections ev data (js_get w ''address'')) (d, browser_result ev) = (None, s)"
    by (auto simp: browser_transaction_def split: option.splits)
  then have "s = snd (steps (browser_sections ev data (js_get w ''address'')) (d, browser_result ev))"
    by simp
  then show "success (snd s)" and "schema (fst s) = schema d"
    using browser_keeps [of ev data "js_get w ''address''" d "browser_result ev"] by simp_all
qed

lemma browser_failed_unchanged:
  assumes "\<not> success (snd (syncBrowserData ev d data))"
  shows "fst (syncBrowserData ev d data) = d"
proof (cases rule: transact_cases [of "browser_transaction ev data" d "browser_result ev" "''Transaction failed''"])
  case (commit s)
  then show ?thesis
    using browser_committed_success(1) [of ev data d s] assms by (simp add: syncBrowserData_def)
next
  case (abort e s)
  then show ?thesis by (simp add: syncBrowserData_def)
qed

lemma chain_failed_unchanged:
  assumes "\<not> success (snd (syncBlockchainData ev d a f))"
  shows "fst (syncBlockchainData ev d a f) = d"
proof (cases rule: transact_cases [of "steps (chain_sections ev a f)" d "chain_result ev" "''Sync failed''"])
  case (commit s)
  then have "s = snd (steps (chain_sections ev a f) (d, chain_result ev))" by simp
  then have "success (snd s)"
    using chain_keeps [of ev a f d "chain_result ev"] by simp
  with commit assms show ?thesis by (simp add: syncBlockchainData_def)
next
  case (abort e s)
  then show ?thesis by (simp add: syncBlockchainData_def)
qed

lemma schema_sql_tables:
  "schema_sql ''user_wallets'' = Some user_wallets"
  "schema_sql ''user_preferences'' = Some user_preferences"
  "schema_sql ''trading_preferences'' = Some trading_preferences"
  "schema_sql ''dismissed_items'' = Some dismissed_items"
  "schema_sql ''affiliates'' = Some affiliates_table"
  "schema_sql ''account_balances'' = Some account_balances"
  "schema_sql ''positions'' = Some positions_table"
  "schema_sql ''orders'' = Some orders_table"
  "schema_sql ''fills'' = Some fills_table"
  "schema_sql ''transfers'' = Some transfers_table"
  "schema_sql ''swaps'' = Some swaps_table"
  "schema_sql ''markets'' = Some markets_table"
  "schema_sql ''sync_metadata'' = Some sync_metadata"
  by (simp_all add: schema_sql_def)

lemma prepare_balance_sql: "schema d = schema_sql \<Longrightarrow> prepare d balanceStmt = Inr balanceStmt"
  by (simp add: prepare_def schema_sql_tables balanceStmt_def account_balances_def)

lemma prepare_position_sql:
  "schema d = schema_sql \<Longrightarrow> prepare d positionStmt = Inl NoMatchingConstraint"
  by (simp add: prepare_def schema_sql_tables positionStmt_def positions_table_def)

lemma run_each_schema:
  "schema (fst (run_each (\<lambda>d x. run now d st (params x)) k report xs s)) = schema (fst s)"
  by (rule run_each_inv [where P = "\<lambda>s'. schema (fst s') = schema (fst s)"])
     (auto dest: run_schema)

lemma chain_aborts_on_schema_sql:
  assumes "schema d = schema_sql"
  shows "\<exists>s. steps (chain_sections ev a f) (d, r) = (Some NoMatchingConstraint, s)"
proof -
  let ?s1 = "run_each (\<lambda>d x. run (sql_now ev) d balanceStmt (props balance_props x)) ''balances''
               (always ''Balance'') (balances f) (d, r)"
  have 1: "each_record (sql_now ev) balanceStmt (props balance_props) ''balances''
             (always ''Balance'') (balances f) (d, r) = Inr ?s1"
    using assms by (simp add: each_record_def prepare_balance_sql)
  have "schema (fst ?s1) = schema_sql"
    using assms run_each_schema [of "sql_now ev" balanceStmt "props balance_props" "''balances''"
        "always ''Balance''" "balances f" "(d, r)"] by simp
  then have 2: "each_record (sql_now ev) positionStmt (props position_props) ''positions''
             (about ''Position'' ''positionId'') (positions f) ?s1 = Inl NoMatchingConstraint"
    by (simp add: each_record_def prepare_position_sql)
  show ?thesis
    using 1 2 by (simp add: chain_sections_def)
qed

lemma fold_upd_other:
  "c \<notin> fst ` set kvs \<Longrightarrow> fold (\<lambda>(k, v) r. r(k := g k v)) kvs r c = r c"
  by (induction kvs arbitrary: r) auto


lemma new_row_head: "c \<notin> set cs \<Longrightarrow> new_row now td (c # cs) (v # vs) c = v"
proof -
  assume "c \<notin> set cs"
  then have "c \<notin> fst ` set (zip cs vs)" by (auto dest: set_zip_leftD)
  from fold_upd_other [OF this, of "\<lambda>k v. v"] show ?thesis by (simp add: new_row_def)
qed

lemma assign_other: "c \<notin> fst ` set sets \<Longrightarrow> assign now sets n r c = r c"
proof -
  assume c: "c \<notin> fst ` set sets"
  have "(\<lambda>(c, e) r'. r'(c := (case e of Excluded \<Rightarrow> n c | NowSet \<Rightarrow> Text now | LitSet v \<Rightarrow> v))) =
        (\<lambda>(k, v) r. r(k := (\<lambda>c e. case e of Excluded \<Rightarrow> n c | NowSet \<Rightarrow> Text now | LitSet v \<Rightarrow> v) k v))"
    by simp
  then show ?thesis
    using fold_upd_other [OF c, of "\<lambda>c e. case e of Excluded \<Rightarrow> n c | NowSet \<Rightarrow> Text now | LitSet v \<Rightarrow> v" r]
    by (simp add: assign_def)
qed

lemma same_key_col: "same_key u r n \<Longrightarrow> c \<in> set u \<Longrightarrow> r c = n c \<and> n c \<noteq> Null"
  by (auto simp: same_key_def list_all_iff)

lemma bind_values_head:
  assumes "bind_values now (Param # es) (p # ps) = Inr vs"
  obtains v vs' where "bind p = Inr v" "vs = v # vs'" "bind_values now es ps = Inr vs'"
  using assms by (auto simp: and_then_def split: sum.splits)

lemma candidate_head:
  assumes "candidate now d st (A # ps) = Some n"
    and "cols st = c # cs" and "c \<notin> set cs" and "vals st = Param # es"
  shows "bind A = Inr (n c)"
proof -
  from assms(1) obtain td vs where "bind_values now (vals st) (A # ps) = Inr vs"
    and n: "n = new_row now td (cols st) vs"
    by (auto simp: candidate_def split: option.splits sum.splits)
  then have "bind_values now (Param # es) (A # ps) = Inr vs"
    using assms(4) by simp
  then obtain v vs' where "bind A = Inr v" "vs = v # vs'"
    by (rule bind_values_head)
  then show ?thesis using n assms(2,3) by (simp add: new_row_head)
qed

text \<open>Rows written by a statement whose first column and parameter is the owner.\<close>

lemma run_owner:
  assumes run: "run now d st (A # ps) = Inr d'"
    and st: "cols st = ''wallet_address'' # cs" "''wallet_address'' \<notin> set cs" "vals st = Param # es"
    and upd: "''wallet_address'' \<notin> set (assigned (resolution st))"
             "resolution st = DoNothing \<or> ''wallet_address'' \<in> set (target st)"
    and row: "row \<in> set (rows d' (tbl st))"
  shows "row \<in> set (rows d (tbl st)) \<or> bind A = Inr (row ''wallet_address'')"
  using run
proof (cases rule: run_cases)
  case (1 n)
  then show ?thesis using row by simp
next
  case (2 n sets)
  from candidate_head [OF 2(1) st] have A: "bind A = Inr (n ''wallet_address'')" .
  from 2(3) upd have wa: "''wallet_address'' \<notin> fst ` set sets" "''wallet_address'' \<in> set (target st)"
    by auto
  from row 2(4) obtain r where r: "r \<in> set (rows d (tbl st))"
    and "row = (if same_key (target st) r n then assign now sets n r else r)"
    by auto
  then show ?thesis
    using A assign_other [OF wa(1), of now n r] same_key_col [of "target st" r n, OF _ wa(2)]
    by (cases "same_key (target st) r n") auto
next
  case (3 n)
  from candidate_head [OF 3(1) st] have "bind A = Inr (n ''wallet_address'')" .
  then show ?thesis using row 3(3) by auto
qed

lemma owned_by_refl: "owned_by d A d"
  by (simp add: owned_by_def list_all_iff)

lemma owned_by_step:
  assumes "owned_by d A d1"
    and "\<And>t row. row \<in> set (rows d2 t) \<Longrightarrow> t \<in> set [''user_preferences'', ''trading_preferences'',
            ''dismissed_items'', ''affiliates'', ''transfers'', ''swaps'', ''sync_metadata''] \<Longrightarrow>
            row \<in> set (rows d1 t) \<or> bind A = Inr (row ''wallet_address'')"
  shows "owned_by d A d2"
  using assms unfolding owned_by_def list_all_iff by blast

lemma run_owned_by:
  assumes "owned_by d A d1" and run: "run now d1 st (A # ps) = Inr d2"
    and st: "cols st = ''wallet_address'' # tl (cols st)" "''wallet_address'' \<notin> set (tl (cols st))"
            "vals st = Param # tl (vals st)"
    and upd: "''wallet_address'' \<notin> set (assigned (resolution st))"
             "resolution st = DoNothing \<or> ''wallet_address'' \<in> set (target st)"
  shows "owned_by d A d2"
proof (rule owned_by_step [OF assms(1)])
  fix t row
  assume row: "row \<in> set (rows d2 t)"
  show "row \<in> set (rows d1 t) \<or> bind A = Inr (row ''wallet_address'')"
  proof (cases "t = tbl st")
    case True
    then show ?thesis using run_owner [OF run st upd, of row] row by simp
  next
    case False
    then show ?thesis using run_frame [OF run, of t] row by simp
  qed
qed

lemma run_wallets_owned_by:
  assumes "owned_by d A d1" and run: "run now d1 walletStmt ps = Inr d2"
  shows "owned_by d A d2"
proof (rule owned_by_step [OF assms(1)])
  fix t row
  assume "row \<in> set (rows d2 t)"
    and "t \<in> set [''user_preferences'', ''trading_preferences'',
            ''dismissed_items'', ''affiliates'', ''transfers'', ''swaps'', ''sync_metadata'']"
  moreover from this(2) have "t \<noteq> tbl walletStmt" by (auto simp: walletStmt_def)
  ultimately show "row \<in> set (rows d1 t) \<or> bind A = Inr (row ''wallet_address'')"
    using run_frame [OF run, of t] by simp
qed

lemma browser_act_owned_by:
  assumes "owned_by d A d1" and "browser_act ev A st ps k" and "run now d1 st ps = Inr d2"
  shows "owned_by d A d2"
proof -
  from assms(2) consider (w) "st = walletStmt"
    | (p) q where "st = prefStmt" "ps = pref_params A q"
    | (t) q where "st = tradePrefStmt" "ps = tradePref_params ev A q"
    | (d) x where "st = dismissedStmt" "ps = dismissed_params ev A x"
    | (a) x where "st = affiliateStmt" "ps = affiliate_params ev A x"
    | (x) x where "st = browserTransferStmt" "ps = browser_transfer_params ev A x"
    | (s) x where "st = swapStmt" "ps = swap_params ev A x"
    unfolding browser_act_def by blast
  then show ?thesis
  proof cases
    case w
    then show ?thesis using run_wallets_owned_by assms by blast
  next
    case p
    show ?thesis
      by (rule run_owned_by [OF assms(1) assms(3) [unfolded p pref_params_def]])
         (simp_all add: prefStmt_def)
  next
    case t
    show ?thesis
      by (rule run_owned_by [OF assms(1) assms(3) [unfolded t tradePref_params_def]])
         (simp_all add: tradePrefStmt_def)
  next
    case d
    show ?thesis
      by (rule run_owned_by [OF assms(1) assms(3) [unfolded d dismissed_params_def]])
         (simp_all add: dismissedStmt_def)
  next
    case a
    show ?thesis
      by (rule run_owned_by [OF assms(1) assms(3) [unfolded a affiliate_params_def]])
         (simp_all add: affiliateStmt_def)
  next
    case x
    show ?thesis
      by (rule run_owned_by [OF assms(1) assms(3) [unfolded x browser_transfer_params_def]])
         (simp_all add: browserTransferStmt_def transfer_columns_def)
  next
    case s
    show ?thesis
      by (rule run_owned_by [OF assms(1) assms(3) [unfolded s swap_params_def]])
         (simp_all add: swapStmt_def)
  qed
qed

lemma find_hd_filter: "find P xs = (if list_ex P xs then Some (hd (filter P xs)) else None)"
  by (induction xs) auto

lemma kept_except_refl: "kept_except S rs rs"
  by (simp add: kept_except_def)

lemma kept_except_trans:
  "kept_except S rs rs' \<Longrightarrow> kept_except S rs' rs'' \<Longrightarrow> kept_except S rs rs''"
  by (auto simp: kept_except_def)

lemma kept_except_nil_prefix:
  assumes "kept_except [] rs rs'"
  shows "take (length rs) rs' = rs"
proof (rule nth_equalityI)
  show "length (take (length rs) rs') = length rs"
    using assms by (simp add: kept_except_def)
next
  fix i
  assume "i < length (take (length rs) rs')"
  then have i: "i < length rs" by simp
  then have "\<forall>c. (rs' ! i) c = (rs ! i) c"
    using assms by (simp add: kept_except_def)
  then have "rs' ! i = rs ! i" by (simp add: fun_eq_iff)
  then show "take (length rs) rs' ! i = rs ! i" using i by simp
qed

lemma run_kept:
  assumes run: "run now d st ps = Inr d'"
    and "set (assigned (resolution st)) \<subseteq> set S"
  shows "kept_except S (rows d (tbl st)) (rows d' (tbl st))"
  using run
proof (cases rule: run_cases)
  case (1 n)
  then show ?thesis by (simp add: kept_except_refl)
next
  case (2 n sets)
  then have "\<And>c. c \<notin> set S \<Longrightarrow> c \<notin> fst ` set sets"
    using assms(2) by auto
  then show ?thesis
    using 2(4) by (simp add: kept_except_def assign_other)
next
  case (3 n)
  then show ?thesis by (simp add: kept_except_def nth_append)
qed

lemma run_kept_table:
  assumes "kept_except S (rows d t) (rows d1 t)" and run: "run now d1 st ps = Inr d2"
    and "tbl st = t \<Longrightarrow> set (assigned (resolution st)) \<subseteq> set S"
  shows "kept_except S (rows d t) (rows d2 t)"
proof (cases "tbl st = t")
  case True
  then show ?thesis
    using kept_except_trans [OF assms(1)] run_kept [OF run, of S] assms(3) by simp
next
  case False
  then show ?thesis using run_frame [OF run, of t] assms(1) by simp
qed

lemma chain_kept:
  assumes "\<And>st ps k. chain_act st ps k \<Longrightarrow> tbl st = t \<Longrightarrow> set (assigned (resolution st)) \<subseteq> set S"
    and "t \<noteq> ''sync_metadata''"
  shows "kept_except S (rows d t) (rows (fst (syncBlockchainData ev d a f)) t)"
proof -
  have inv: "kept_except S (rows d t) (rows (fst (snd (steps (chain_sections ev a f) (d, chain_result ev)))) t)"
  proof (rule chain_sections_inv [where P = "\<lambda>s. kept_except S (rows d t) (rows (fst s) t)"])
    show "kept_except S (rows d t) (rows (fst (d, chain_result ev)) t)"
      by (simp add: kept_except_refl)
  next
    fix s :: txn and st ps k d'
    assume "kept_except S (rows d t) (rows (fst s) t)" "chain_act st ps k"
      "run (sql_now ev) (fst s) st ps = Inr d'"
    then show "kept_except S (rows d t) (rows (fst (d', counted k (snd s))) t)"
      using run_kept_table [of S d t "fst s" "sql_now ev" st ps d'] assms(1) by simp
  next
    fix s :: txn and m
    assume "kept_except S (rows d t) (rows (fst s) t)"
    then show "kept_except S (rows d t) (rows (fst (fst s, pushed m (snd s))) t)" by simp
  next
    fix s :: txn and n d'
    assume "kept_except S (rows d t) (rows (fst s) t)"
      and "run (sql_now ev) (fst s) (syncMetaStmt ''blockchain'') [JStr a, JNum n] = Inr d'"
    then show "kept_except S (rows d t) (rows (fst (d', snd s)) t)"
      using run_kept_table [of S d t "fst s" "sql_now ev" "syncMetaStmt ''blockchain''" _ d'] assms(2)
      by (simp add: syncMetaStmt_def)
  qed
  show ?thesis
    by (cases rule: transact_cases [of "steps (chain_sections ev a f)" d "chain_result ev" "''Sync failed''"])
       (use inv in \<open>simp_all add: syncBlockchainData_def kept_except_refl\<close>)
qed

lemma stmt_tbl [simp]:
  "tbl walletStmt = ''user_wallets''" "tbl prefStmt = ''user_preferences''"
  "tbl tradePrefStmt = ''trading_preferences''" "tbl dismissedStmt = ''dismissed_items''"
  "tbl affiliateStmt = ''affiliates''" "tbl browserTransferStmt = ''transfers''"
  "tbl swapStmt = ''swaps''" "tbl (syncMetaStmt ty) = ''sync_metadata''"
  "tbl balanceStmt = ''account_balances''" "tbl positionStmt = ''positions''"
  "tbl orderStmt = ''orders''" "tbl fillStmt = ''fills''"
  "tbl transferStmt = ''transfers''" "tbl marketStmt = ''markets''"
  by (simp_all add: walletStmt_def prefStmt_def tradePrefStmt_def dismissedStmt_def
        affiliateStmt_def browserTransferStmt_def swapStmt_def syncMetaStmt_def balanceStmt_def
        positionStmt_def orderStmt_def fillStmt_def transferStmt_def marketStmt_def)

lemma stmt_assigned:
  "assigned (resolution walletStmt) = [''is_primary'']"
  "assigned (resolution dismissedStmt) = []"
  "assigned (resolution browserTransferStmt) = []"
  "assigned (resolution swapStmt) = []"
  "assigned (resolution positionStmt) = [''size'', ''unrealized_pnl'', ''updated_at'']"
  "assigned (resolution orderStmt) = [''status'', ''remaining_size'', ''updated_at'']"
  "assigned (resolution fillStmt) = []"
  "assigned (resolution transferStmt) = [''status'', ''updated_at'']"
  by (simp_all add: walletStmt_def dismissedStmt_def browserTransferStmt_def swapStmt_def
        positionStmt_def orderStmt_def fillStmt_def transferStmt_def)

lemma chain_act_cases:
  assumes "chain_act st ps k"
  obtains "st = balanceStmt" | "st = positionStmt" | "st = orderStmt" | "st = fillStmt"
    | "st = transferStmt" | "st = marketStmt"
  using assms unfolding chain_act_def by blast

lemma browser_act_cases:
  assumes "browser_act ev A st ps k"
  obtains "st = walletStmt" | "st = prefStmt" | "st = tradePrefStmt" | "st = dismissedStmt"
    | "st = affiliateStmt" | "st = browserTransferStmt" | "st = swapStmt"
  using assms unfolding browser_act_def by blast

lemma orders_kept:
  "kept_except [''status'', ''remaining_size'', ''updated_at'']
     (rows d ''orders'') (rows (fst (syncBlockchainData ev d a f)) ''orders'')"
proof (rule chain_kept)
  fix st ps k
  assume "chain_act st ps k" and "tbl st = ''orders''"
  then show "set (assigned (resolution st)) \<subseteq> set [''status'', ''remaining_size'', ''updated_at'']"
    by (cases rule: chain_act_cases) (simp_all add: stmt_assigned)
qed simp

lemma fills_kept:
  "kept_except [] (rows d ''fills'') (rows (fst (syncBlockchainData ev d a f)) ''fills'')"
proof (rule chain_kept)
  fix st ps k
  assume "chain_act st ps k" and "tbl st = ''fills''"
  then show "set (assigned (resolution st)) \<subseteq> set []"
    by (cases rule: chain_act_cases) (simp_all add: stmt_assigned)
qed simp

lemma prepare_ok:
  assumes "schema d (tbl st) = Some td"
    and "list_all (\<lambda>c. c \<in> set (map cname (columns td)))
           (cols st @ target st @ assigned (resolution st))"
    and "list_ex (\<lambda>u. set u = set (target st)) (uniques td)"
  shows "prepare d st = Inr st"
  using assms by (simp add: prepare_def)

lemma prepare_sync_meta:
  assumes "schema d ''sync_metadata'' = Some sync_metadata"
  shows "prepare d (syncMetaStmt ty) = Inr (syncMetaStmt ty)"
  by (rule prepare_ok [where td = sync_metadata])
     (simp_all add: assms, simp_all add: syncMetaStmt_def sync_metadata_def)

lemma run_succeeds:
  assumes "schema d (tbl st) = Some td"
    and "bind_values now (vals st) ps = Inr vs"
    and "\<not> list_ex (\<lambda>c. notnull c \<and> new_row now td (cols st) vs (cname c) = Null) (columns td)"
    and "list_all (\<lambda>u. set u = set (target st)) (uniques td)"
    and "foreign_keys td = []"
  shows "\<exists>d'. run now d st ps = Inr d'"
proof -
  have "\<not> list_ex (\<lambda>u. set u \<noteq> set (target st) \<and>
            list_ex (\<lambda>r. same_key u r (new_row now td (cols st) vs)) (rows d (tbl st))) (uniques td)"
    using assms(4) by (auto simp: list_all_iff list_ex_iff)
  then show ?thesis
    using assms(1,2,3,5)
    by (cases "resolution st") (simp_all add: run_def Let_def)
qed

lemma sync_meta_runs:
  assumes "schema d ''sync_metadata'' = Some sync_metadata"
  shows "\<exists>d'. run now d (syncMetaStmt ty) [JStr a, JNum n] = Inr d'"
proof (rule run_succeeds [where td = sync_metadata and vs = "[Text a, Text ty, Text now, Text ''success'', Integer n]"])
  show "schema d (tbl (syncMetaStmt ty)) = Some sync_metadata"
    using assms by simp
  show "bind_values now (vals (syncMetaStmt ty)) [JStr a, JNum n] =
          Inr [Text a, Text ty, Text now, Text ''success'', Integer n]"
    by (simp add: syncMetaStmt_def and_then_def)
  show "\<not> list_ex (\<lambda>c. notnull c \<and>
            new_row now sync_metadata (cols (syncMetaStmt ty))
              [Text a, Text ty, Text now, Text ''success'', Integer n] (cname c) = Null)
          (columns sync_metadata)"
    by (simp add: syncMetaStmt_def sync_metadata_def new_row_def)
  show "list_all (\<lambda>u. set u = set (target (syncMetaStmt ty))) (uniques sync_metadata)"
    by (simp add: syncMetaStmt_def sync_metadata_def)
  show "foreign_keys sync_metadata = []"
    by (simp add: sync_metadata_def)
qed

lemma steps_ok:
  assumes "Q s"
    and "\<And>f s. f \<in> set fs \<Longrightarrow> Q s \<Longrightarrow> \<exists>s'. f s = Inr s' \<and> Q s'"
  shows "fst (steps fs s) = None"
  using assms
proof (induction fs arbitrary: s)
  case Nil
  then show ?case by simp
next
  case (Cons f fs)
  from Cons.prems(2) [of f s] Cons.prems(1) obtain s' where s': "f s = Inr s'" "Q s'"
    by auto
  have "fst (steps fs s') = None"
    using Cons.IH [OF s'(2)] Cons.prems(2) by (metis list.set_intros(2))
  then show ?case using s'(1) by simp
qed

lemma each_record_ok:
  assumes "prepare (fst s) st = Inr st"
  shows "\<exists>s'. each_record now st params k report xs s = Inr s' \<and> schema (fst s') = schema (fst s)"
  using assms run_each_schema [of now st params k report xs s]
  by (simp add: each_record_def)

lemma sync_meta_ok:
  assumes "schema (fst s) ''sync_metadata'' = Some sync_metadata"
  shows "\<exists>s'. sync_meta ev ty (JStr a) s = Inr s' \<and> schema (fst s') = schema (fst s)"
proof -
  from sync_meta_runs [OF assms]
  obtain d' where "run (sql_now ev) (fst s) (syncMetaStmt ty)
                     [JStr a, JNum (int (totalRecords (snd s)))] = Inr d'"
    by blast
  then show ?thesis
    using prepare_sync_meta [OF assms, of ty] run_schema [of "sql_now ev" "fst s" _ _ d']
    by (simp add: sync_meta_def)
qed

lemma chain_schema: "schema (fst (syncBlockchainData ev d a f)) = schema d"
  by (cases rule: transact_cases [of "steps (chain_sections ev a f)" d "chain_result ev" "''Sync failed''"])
     (use chain_keeps [of ev a f d "chain_result ev"] in \<open>auto simp: syncBlockchainData_def\<close>)


lemma chain_store_inv:
  assumes "P d"
    and "\<And>d1 st ps k d2. P d1 \<Longrightarrow> chain_act st ps k \<Longrightarrow> run (sql_now ev) d1 st ps = Inr d2 \<Longrightarrow> P d2"
    and "\<And>d1 n d2. P d1 \<Longrightarrow>
           run (sql_now ev) d1 (syncMetaStmt ''blockchain'') [JStr a, JNum n] = Inr d2 \<Longrightarrow> P d2"
  shows "P (fst (syncBlockchainData ev d a f))"
proof -
  have inv: "P (fst (snd (steps (chain_sections ev a f) (d, chain_result ev))))"
  proof (rule chain_sections_inv [where P = "\<lambda>s. P (fst s)"])
    show "P (fst (d, chain_result ev))" using assms(1) by simp
  next
    fix s :: txn and st ps k d'
    assume "P (fst s)" "chain_act st ps k" "run (sql_now ev) (fst s) st ps = Inr d'"
    then show "P (fst (d', counted k (snd s)))" using assms(2) by simp
  next
    fix s :: txn and m
    assume "P (fst s)"
    then show "P (fst (fst s, pushed m (snd s)))" by simp
  next
    fix s :: txn and n d'
    assume "P (fst s)"
      "run (sql_now ev) (fst s) (syncMetaStmt ''blockchain'') [JStr a, JNum n] = Inr d'"
    then show "P (fst (d', snd s))" using assms(3) by simp
  qed
  show ?thesis
    by (cases rule: transact_cases [of "steps (chain_sections ev a f)" d "chain_result ev" "''Sync failed''"])
       (use inv assms(1) in \<open>simp_all add: syncBlockchainData_def\<close>)
qed

lemma browser_store_inv:
  assumes "P d"
    and "\<And>A d1 st ps k d2. P d1 \<Longrightarrow> browser_act ev A st ps k \<Longrightarrow>
           run (sql_now ev) d1 st ps = Inr d2 \<Longrightarrow> P d2"
    and "\<And>A d1 n d2. P d1 \<Longrightarrow>
           run (sql_now ev) d1 (syncMetaStmt ''browser_storage'') [A, JNum n] = Inr d2 \<Longrightarrow> P d2"
  shows "P (fst (syncBrowserData ev d data))"
proof (cases rule: transact_cases [of "browser_transaction ev data" d "browser_result ev"
          "''Transaction failed''"])
  case (commit s)
  from commit(1) obtain w where
    "steps (browser_sections ev data (js_get w ''address'')) (d, browser_result ev) = (None, s)"
    by (auto simp: browser_transaction_def split: option.splits)
  then have s: "s = snd (steps (browser_sections ev data (js_get w ''address''))
                          (d, browser_result ev))"
    by simp
  have "P (fst (snd (steps (browser_sections ev data (js_get w ''address'')) (d, browser_result ev))))"
  proof (rule browser_sections_inv [where P = "\<lambda>s. P (fst s)"])
    show "P (fst (d, browser_result ev))" using assms(1) by simp
  next
    fix s :: txn and st ps k d'
    assume "P (fst s)" "browser_act ev (js_get w ''address'') st ps k"
      "run (sql_now ev) (fst s) st ps = Inr d'"
    then show "P (fst (d', counted k (snd s)))" using assms(2) by simp
  next
    fix s :: txn and m
    assume "P (fst s)"
    then show "P (fst (fst s, pushed m (snd s)))" by simp
  next
    fix s :: txn and n d'
    assume "P (fst s)"
      "run (sql_now ev) (fst s) (syncMetaStmt ''browser_storage'') [js_get w ''address'', JNum n] = Inr d'"
    then show "P (fst (d', snd s))" using assms(3) by simp
  qed
  then show ?thesis using commit(2) s by (simp add: syncBrowserData_def)
next
  case (abort e s)
  then show ?thesis using assms(1) by (simp add: syncBrowserData_def)
qed

lemma browser_kept:
  assumes "\<And>A st ps k. browser_act ev A st ps k \<Longrightarrow> tbl st = t \<Longrightarrow>
             set (assigned (resolution st)) \<subseteq> set S"
    and "t \<noteq> ''sync_metadata''"
  shows "kept_except S (rows d t) (rows (fst (syncBrowserData ev d data)) t)"
proof (rule browser_store_inv [where P = "\<lambda>d'. kept_except S (rows d t) (rows d' t)"])
  show "kept_except S (rows d t) (rows d t)" by (rule kept_except_refl)
next
  fix A d1 st ps k d2
  assume "kept_except S (rows d t) (rows d1 t)" "browser_act ev A st ps k"
    "run (sql_now ev) d1 st ps = Inr d2"
  then show "kept_except S (rows d t) (rows d2 t)"
    using run_kept_table [of S d t d1 "sql_now ev" st ps d2] assms(1) by blast
next
  fix A d1 n d2
  assume "kept_except S (rows d t) (rows d1 t)"
    "run (sql_now ev) d1 (syncMetaStmt ''browser_storage'') [A, JNum n] = Inr d2"
  then show "kept_except S (rows d t) (rows d2 t)"
    using run_kept_table [of S d t d1 "sql_now ev" "syncMetaStmt ''browser_storage''" _ d2] assms(2)
    by simp
qed

text \<open>A statement keyed by one column never adds a row for a value that is stored.\<close>

lemma run_no_second_row:
  assumes run: "run now d st ps = Inr d'"
    and key: "target st = [c]" "c \<notin> set (assigned (resolution st))"
    and stored: "list_ex (\<lambda>r. r c = v) (rows d (tbl st))" and v: "v \<noteq> Null"
  shows "length (filter (\<lambda>r. r c = v) (rows d' (tbl st))) =
         length (filter (\<lambda>r. r c = v) (rows d (tbl st)))"
  using run
proof (cases rule: run_cases)
  case (1 n)
  then show ?thesis by simp
next
  case (2 n sets)
  let ?g = "\<lambda>r. if same_key (target st) r n then assign now sets n r else r"
  have "\<And>r. ?g r c = r c"
    using key(2) 2(3) by (simp add: assign_other)
  then have "filter (\<lambda>r. r c = v) (map ?g (rows d (tbl st))) =
             map ?g (filter (\<lambda>r. r c = v) (rows d (tbl st)))"
    by (simp add: filter_map comp_def)
  then show ?thesis using 2(4) by simp
next
  case (3 n)
  have "n c \<noteq> v"
  proof
    assume "n c = v"
    then have "list_ex (\<lambda>r. same_key (target st) r n) (rows d (tbl st))"
      using stored v key(1) by (auto simp: same_key_def list_ex_iff)
    with 3(2) show False by simp
  qed
  then show ?thesis using 3(3) by simp
qed

lemma run_no_second_row_table:
  assumes run: "run now d1 st ps = Inr d2"
    and key: "tbl st = t \<Longrightarrow> target st = [c] \<and> c \<notin> set (assigned (resolution st))"
    and stored: "list_ex (\<lambda>r. r c = v) (rows d t)" and v: "v \<noteq> Null"
    and inv: "length (filter (\<lambda>r. r c = v) (rows d1 t)) = length (filter (\<lambda>r. r c = v) (rows d t))"
  shows "length (filter (\<lambda>r. r c = v) (rows d2 t)) = length (filter (\<lambda>r. r c = v) (rows d t))"
proof (cases "tbl st = t")
  case True
  have "filter (\<lambda>r. r c = v) (rows d t) \<noteq> []"
    using stored by (auto simp: list_ex_iff filter_empty_conv)
  then have "filter (\<lambda>r. r c = v) (rows d1 t) \<noteq> []"
    using inv by (metis length_0_conv)
  then have "list_ex (\<lambda>r. r c = v) (rows d1 t)"
    by (auto simp: list_ex_iff filter_empty_conv)
  then show ?thesis
    using run_no_second_row [OF run, of c v] key True v inv by simp
next
  case False
  then show ?thesis using run_frame [OF run, of t] inv by simp
qed

lemma stmt_target:
  "target browserTransferStmt = [''tx_hash'']" "target transferStmt = [''tx_hash'']"
  "target swapStmt = [''tx_hash'']"
  by (simp_all add: browserTransferStmt_def transferStmt_def swapStmt_def)

lemma chain_no_second_transfer:
  assumes "list_ex (\<lambda>r. r ''tx_hash'' = Text h) (rows d ''transfers'')"
  shows "length (filter (\<lambda>r. r ''tx_hash'' = Text h) (rows (fst (syncBlockchainData ev d a f)) ''transfers'')) =
         length (filter (\<lambda>r. r ''tx_hash'' = Text h) (rows d ''transfers''))"
proof (rule chain_store_inv [where P = "\<lambda>d'. length (filter (\<lambda>r. r ''tx_hash'' = Text h) (rows d' ''transfers'')) =
         length (filter (\<lambda>r. r ''tx_hash'' = Text h) (rows d ''transfers''))"])
  fix d1 st ps k d2
  assume inv: "length (filter (\<lambda>r. r ''tx_hash'' = Text h) (rows d1 ''transfers'')) =
         length (filter (\<lambda>r. r ''tx_hash'' = Text h) (rows d ''transfers''))"
    and act: "chain_act st ps k" and run: "run (sql_now ev) d1 st ps = Inr d2"
  have "tbl st = ''transfers'' \<Longrightarrow>
          target st = [''tx_hash''] \<and> ''tx_hash'' \<notin> set (assigned (resolution st))"
    using act by (cases rule: chain_act_cases) (simp_all add: stmt_assigned stmt_target)
  then show "length (filter (\<lambda>r. r ''tx_hash'' = Text h) (rows d2 ''transfers'')) =
         length (filter (\<lambda>r. r ''tx_hash'' = Text h) (rows d ''transfers''))"
    using run_no_second_row_table [OF run _ assms _ inv] by simp
next
  fix d1 n d2
  assume inv: "length (filter (\<lambda>r. r ''tx_hash'' = Text h) (rows d1 ''transfers'')) =
         length (filter (\<lambda>r. r ''tx_hash'' = Text h) (rows d ''transfers''))"
    and run: "run (sql_now ev) d1 (syncMetaStmt ''blockchain'') [JStr a, JNum n] = Inr d2"
  show "length (filter (\<lambda>r. r ''tx_hash'' = Text h) (rows d2 ''transfers'')) =
         length (filter (\<lambda>r. r ''tx_hash'' = Text h) (rows d ''transfers''))"
    using run_frame [OF run, of "''transfers''"] inv by simp
qed simp

lemma browser_no_second_transfer:
  assumes "list_ex (\<lambda>r. r ''tx_hash'' = Text h) (rows d ''transfers'')"
  shows "length (filter (\<lambda>r. r ''tx_hash'' = Text h) (rows (fst (syncBrowserData ev d data)) ''transfers'')) =
         length (filter (\<lambda>r. r ''tx_hash'' = Text h) (rows d ''transfers''))"
proof (rule browser_store_inv [where P = "\<lambda>d'. length (filter (\<lambda>r. r ''tx_hash'' = Text h) (rows d' ''transfers'')) =
         length (filter (\<lambda>r. r ''tx_hash'' = Text h) (rows d ''transfers''))"])
  fix A d1 st ps k d2
  assume inv: "length (filter (\<lambda>r. r ''tx_hash'' = Text h) (rows d1 ''transfers'')) =
         length (filter (\<lambda>r. r ''tx_hash'' = Text h) (rows d ''transfers''))"
    and act: "browser_act ev A st ps k" and run: "run (sql_now ev) d1 st ps = Inr d2"
  have "tbl st = ''transfers'' \<Longrightarrow>
          target st = [''tx_hash''] \<and> ''tx_hash'' \<notin> set (assigned (resolution st))"
    using act by (cases rule: browser_act_cases) (simp_all add: stmt_assigned stmt_target)
  then show "length (filter (\<lambda>r. r ''tx_hash'' = Text h) (rows d2 ''transfers'')) =
         length (filter (\<lambda>r. r ''tx_hash'' = Text h) (rows d ''transfers''))"
    using run_no_second_row_table [OF run _ assms _ inv] by simp
next
  fix A d1 n d2
  assume inv: "length (filter (\<lambda>r. r ''tx_hash'' = Text h) (rows d1 ''transfers'')) =
         length (filter (\<lambda>r. r ''tx_hash'' = Text h) (rows d ''transfers''))"
    and run: "run (sql_now ev) d1 (syncMetaStmt ''browser_storage'') [A, JNum n] = Inr d2"
  show "length (filter (\<lambda>r. r ''tx_hash'' = Text h) (rows d2 ''transfers'')) =
         length (filter (\<lambda>r. r ''tx_hash'' = Text h) (rows d ''transfers''))"
    using run_frame [OF run, of "''transfers''"] inv by simp
qed simp

lemma ledger_transfers_kept:
  "kept_except [''status'', ''updated_at'']
     (rows d ''transfers'') (rows (fst (syncBlockchainData ev d a f)) ''transfers'')"
proof (rule chain_kept)
  fix st ps k
  assume "chain_act st ps k" and "tbl st = ''transfers''"
  then show "set (assigned (resolution st)) \<subseteq> set [''status'', ''updated_at'']"
    by (cases rule: chain_act_cases) (simp_all add: stmt_assigned)
qed simp

lemma browser_transfers_kept:
  "kept_except [] (rows d ''transfers'') (rows (fst (syncBrowserData ev d data)) ''transfers'')"
proof (rule browser_kept)
  fix A st ps k
  assume "browser_act ev A st ps k" and "tbl st = ''transfers''"
  then show "set (assigned (resolution st)) \<subseteq> set []"
    by (cases rule: browser_act_cases) (simp_all add: stmt_assigned)
qed simp

lemma bump_keys [simp]: "map fst (bump k cs) = map fst cs"
  by (induction cs) (auto simp: bump_def)

lemma map_of_bump:
  "map_of (bump k' cs) k = map_option (\<lambda>n. if k = k' then Suc n else n) (map_of cs k)"
  by (induction cs) (auto simp: bump_def)

lemma count_of_bump:
  "count_of (bump k' cs) k =
     (if k = k' \<and> k \<in> set (map fst cs) then Suc (count_of cs k) else count_of cs k)"
proof (cases "map_of cs k")
  case None
  then have "k \<notin> set (map fst cs)" by (simp add: map_of_eq_None_iff)
  then show ?thesis using None by (simp add: count_of_def map_of_bump)
next
  case (Some n)
  then have "k \<in> set (map fst cs)"
    using map_of_eq_None_iff [of cs k] by simp
  then show ?thesis using Some by (auto simp: count_of_def map_of_bump)
qed

lemma bump_keys_set [simp]: "fst ` set (bump k cs) = fst ` set cs"
  using bump_keys [of k cs] by (metis set_map)


lemma count_of_bump_ge: "count_of cs k \<le> count_of (bump k' cs) k"
  by (simp add: count_of_bump)



lemma run_each_accounted_same:
  assumes "\<And>x e. \<exists>m. report x e = Some m \<and> label_of m = L"
    and "k \<in> set (map fst (synced (snd s)))"
  shows "accounted_for k L (snd (run_each exec k report xs s)) = accounted_for k L (snd s) + length xs \<and>
         map fst (synced (snd (run_each exec k report xs s))) = map fst (synced (snd s))"
  using assms(2)
proof (induction xs arbitrary: s)
  case Nil
  then show ?case by simp
next
  case (Cons x xs)
  let ?s1 = "case exec (fst s) x of
               Inr d' \<Rightarrow> (d', counted k (snd s))
             | Inl e \<Rightarrow> (fst s, (case report x e of None \<Rightarrow> snd s | Some m \<Rightarrow> pushed m (snd s)))"
  have 1: "accounted_for k L (snd ?s1) = Suc (accounted_for k L (snd s)) \<and>
           map fst (synced (snd ?s1)) = map fst (synced (snd s))"
  proof (cases "exec (fst s) x")
    case (Inr d')
    then show ?thesis using Cons.prems by (simp add: accounted_for_def count_of_bump)
  next
    case (Inl e)
    from assms(1) [of x e] obtain m where "report x e = Some m" "label_of m = L" by blast
    then show ?thesis using Inl by (simp add: accounted_for_def)
  qed
  then have "k \<in> set (map fst (synced (snd ?s1)))" using Cons.prems by simp
  from Cons.IH [OF this] 1 show ?case by simp
qed

lemma run_each_accounted_other:
  assumes "\<And>x e m. report x e = Some m \<Longrightarrow> label_of m \<noteq> L"
    and "k' \<noteq> k"
  shows "accounted_for k L (snd (run_each exec k' report xs s)) = accounted_for k L (snd s) \<and>
         map fst (synced (snd (run_each exec k' report xs s))) = map fst (synced (snd s))"
proof (induction xs arbitrary: s)
  case Nil
  then show ?case by simp
next
  case (Cons x xs)
  let ?s1 = "case exec (fst s) x of
               Inr d' \<Rightarrow> (d', counted k' (snd s))
             | Inl e \<Rightarrow> (fst s, (case report x e of None \<Rightarrow> snd s | Some m \<Rightarrow> pushed m (snd s)))"
  have 1: "accounted_for k L (snd ?s1) = accounted_for k L (snd s) \<and>
           map fst (synced (snd ?s1)) = map fst (synced (snd s))"
  proof (cases "exec (fst s) x")
    case (Inr d')
    then show ?thesis using assms(2) by (simp add: accounted_for_def count_of_bump)
  next
    case (Inl e)
    then show ?thesis
      using assms(1) [of x e] by (cases "report x e") (simp_all add: accounted_for_def)
  qed
  from Cons.IH [of ?s1] 1 show ?case by simp
qed

lemma run_each_accounted_le:
  assumes "\<And>x e m. k' \<noteq> k \<Longrightarrow> report x e = Some m \<Longrightarrow> label_of m \<noteq> L"
  shows "accounted_for k L (snd (run_each exec k' report xs s)) \<le>
           accounted_for k L (snd s) + (if k' = k then length xs else 0)"
proof (induction xs arbitrary: s)
  case Nil
  then show ?case by simp
next
  case (Cons x xs)
  let ?s1 = "case exec (fst s) x of
               Inr d' \<Rightarrow> (d', counted k' (snd s))
             | Inl e \<Rightarrow> (fst s, (case report x e of None \<Rightarrow> snd s | Some m \<Rightarrow> pushed m (snd s)))"
  have "accounted_for k L (snd ?s1) \<le> accounted_for k L (snd s) + (if k' = k then 1 else 0)"
  proof (cases "exec (fst s) x")
    case (Inr d')
    then show ?thesis by (simp add: accounted_for_def count_of_bump)
  next
    case (Inl e)
    then show ?thesis
      using assms [of x e] by (cases "report x e") (auto simp: accounted_for_def)
  qed
  then show ?case using Cons.IH [of ?s1] by (auto split: if_splits)
qed

lemma reporters:
  "about l c x e = Some m \<Longrightarrow> label_of m = l"
  "always l x e = Some m \<Longrightarrow> label_of m = l"
  "unless_unique l c x e = Some m \<Longrightarrow> label_of m = l"
  by (auto simp: about_def always_def unless_unique_def split: if_splits)

lemma each_record_at_most:
  assumes "\<And>x e m. report x e = Some m \<Longrightarrow> label_of m = L'"
    and "k' \<noteq> k \<Longrightarrow> L' \<noteq> L"
  shows "adds_at_most k L (each_record now st params k' report xs) (if k' = k then length xs else 0)"
  unfolding adds_at_most_def
proof (intro allI impI)
  fix s s'
  assume "each_record now st params k' report xs s = Inr s'"
  then have "s' = run_each (\<lambda>d x. run now d st (params x)) k' report xs s"
    by (auto simp: each_record_def split: sum.splits dest: prepare_Inr)
  then show "accounted_for k L (snd s') \<le> accounted_for k L (snd s) + (if k' = k then length xs else 0)"
    using run_each_accounted_le [of k' k report L "\<lambda>d x. run now d st (params x)" xs s] assms
    by blast
qed

lemma each_record_exactly:
  assumes "\<And>x e. \<exists>m. report x e = Some m \<and> label_of m = L"
  shows "adds_exactly k L (each_record now st params k report xs) (length xs)"
  unfolding adds_exactly_def
proof (intro allI impI)
  fix s s'
  assume a: "each_record now st params k report xs s = Inr s' \<and> k \<in> set (map fst (synced (snd s)))"
  then have s': "s' = run_each (\<lambda>d x. run now d st (params x)) k report xs s"
    by (auto simp: each_record_def split: sum.splits dest: prepare_Inr)
  show "k \<in> set (map fst (synced (snd s'))) \<and>
        accounted_for k L (snd s') = accounted_for k L (snd s) + length xs"
    using run_each_accounted_same [of report L k s "\<lambda>d x. run now d st (params x)" xs] assms a s'
    by auto
qed

lemma each_record_exactly_other:
  assumes "\<And>x e m. report x e = Some m \<Longrightarrow> label_of m = L'"
    and "L' \<noteq> L" and "k' \<noteq> k"
  shows "adds_exactly k L (each_record now st params k' report xs) 0"
  unfolding adds_exactly_def
proof (intro allI impI)
  fix s s'
  assume a: "each_record now st params k' report xs s = Inr s' \<and> k \<in> set (map fst (synced (snd s)))"
  then have s': "s' = run_each (\<lambda>d x. run now d st (params x)) k' report xs s"
    by (auto simp: each_record_def split: sum.splits dest: prepare_Inr)
  have "\<And>x e m. report x e = Some m \<Longrightarrow> label_of m \<noteq> L"
    using assms(1,2) by blast
  then show "k \<in> set (map fst (synced (snd s'))) \<and>
        accounted_for k L (snd s') = accounted_for k L (snd s) + 0"
    using run_each_accounted_other [of report L k' k "\<lambda>d x. run now d st (params x)" xs s] assms(3) a s'
    by auto
qed

lemma attempt_at_most:
  assumes "k' \<noteq> k \<Longrightarrow> L' \<noteq> L"
  shows "adds_at_most k L (\<lambda>s. Inr (attempt now st ps k' L' s)) (if k' = k then 1 else 0)"
  using assms
  by (auto simp: adds_at_most_def attempt_def accounted_for_def count_of_bump split: sum.splits)

lemma attempt_exactly:
  assumes "k' \<noteq> k \<Longrightarrow> L' \<noteq> L" and "k' = k \<Longrightarrow> L' = L"
  shows "adds_exactly k L (\<lambda>s. Inr (attempt now st ps k' L' s)) (if k' = k then 1 else 0)"
  using assms
  by (auto simp: adds_exactly_def attempt_def accounted_for_def count_of_bump split: sum.splits)

lemma skip_at_most: "adds_at_most k L Inr 0"
  by (simp add: adds_at_most_def)

lemma skip_exactly: "adds_exactly k L Inr 0"
  by (simp add: adds_exactly_def)

lemma sync_meta_at_most: "adds_at_most k L (sync_meta ev ty A) 0"
  by (auto simp: adds_at_most_def sync_meta_def split: sum.splits)

lemma sync_meta_exactly: "adds_exactly k L (sync_meta ev ty A) 0"
  by (auto simp: adds_exactly_def sync_meta_def split: sum.splits)

lemma adds_at_mostD:
  "adds_at_most k L f n \<Longrightarrow> f s = Inr s' \<Longrightarrow>
     accounted_for k L (snd s') \<le> accounted_for k L (snd s) + n"
  unfolding adds_at_most_def by blast

lemma adds_exactlyD:
  "adds_exactly k L f n \<Longrightarrow> f s = Inr s' \<Longrightarrow> k \<in> set (map fst (synced (snd s))) \<Longrightarrow>
     k \<in> set (map fst (synced (snd s'))) \<and>
     accounted_for k L (snd s') = accounted_for k L (snd s) + n"
  unfolding adds_exactly_def by blast

lemma steps_at_most:
  assumes "list_all2 (adds_at_most k L) fs ns"
  shows "accounted_for k L (snd (snd (steps fs s))) \<le> accounted_for k L (snd s) + sum_list ns"
  using assms
proof (induction fs ns arbitrary: s rule: list_all2_induct)
  case Nil
  then show ?case by simp
next
  case (Cons f fs n ns)
  show ?case
  proof (cases "f s")
    case (Inl e)
    then show ?thesis by simp
  next
    case (Inr s1)
    then have "accounted_for k L (snd s1) \<le> accounted_for k L (snd s) + n"
      using Cons.hyps(1) by (rule adds_at_mostD [rotated])
    then show ?thesis using Cons.IH [of s1] Inr by simp
  qed
qed

lemma steps_exactly:
  assumes "list_all2 (adds_exactly k L) fs ns"
    and "steps fs s = (None, s')" and "k \<in> set (map fst (synced (snd s)))"
  shows "accounted_for k L (snd s') = accounted_for k L (snd s) + sum_list ns"
  using assms
proof (induction fs ns arbitrary: s rule: list_all2_induct)
  case Nil
  then show ?case by simp
next
  case (Cons f fs n ns)
  from Cons.prems(1) obtain s1 where s1: "f s = Inr s1" "steps fs s1 = (None, s')"
    by (cases "f s") simp_all
  then have "k \<in> set (map fst (synced (snd s1)))"
    and "accounted_for k L (snd s1) = accounted_for k L (snd s) + n"
    using adds_exactlyD [OF Cons.hyps(1) s1(1) Cons.prems(2)] by blast+
  then show ?case using Cons.IH [OF s1(2)] by simp
qed

lemma each_about_at_most:
  assumes "k' \<noteq> k \<Longrightarrow> l \<noteq> L"
  shows "adds_at_most k L (each_record now st params k' (about l c) xs) (if k' = k then length xs else 0)"
  by (rule each_record_at_most [where L' = l]) (use assms in \<open>auto dest: reporters\<close>)

lemma each_always_at_most:
  assumes "k' \<noteq> k \<Longrightarrow> l \<noteq> L"
  shows "adds_at_most k L (each_record now st params k' (always l) xs) (if k' = k then length xs else 0)"
  by (rule each_record_at_most [where L' = l]) (use assms in \<open>auto dest: reporters\<close>)

lemma each_unless_at_most:
  assumes "k' \<noteq> k \<Longrightarrow> l \<noteq> L"
  shows "adds_at_most k L (each_record now st params k' (unless_unique l c) xs)
           (if k' = k then length xs else 0)"
  by (rule each_record_at_most [where L' = l]) (use assms in \<open>auto dest: reporters\<close>)

lemma optional_at_most:
  assumes "\<And>x. opt = Some x \<Longrightarrow> adds_at_most k L (g x) (n x)"
  shows "adds_at_most k L (\<lambda>s. case opt of None \<Rightarrow> Inr s | Some x \<Rightarrow> g x s)
           (case opt of None \<Rightarrow> 0 | Some x \<Rightarrow> n x)"
proof (cases opt)
  case None
  then show ?thesis by (simp add: adds_at_most_def)
next
  case (Some x)
  then have "(\<lambda>s. case opt of None \<Rightarrow> Inr s | Some x \<Rightarrow> g x s) = g x" by simp
  then show ?thesis using assms [OF Some] Some by simp
qed

lemma sizes_alt:
  "(if c then batch opt else 0) = (case opt of None \<Rightarrow> 0 | Some xs \<Rightarrow> if c then length xs else 0)"
  "(if c then once opt' else 0) = (case opt' of None \<Rightarrow> 0 | Some p \<Rightarrow> if c then 1 else 0)"
  "batch opt = length (case opt of None \<Rightarrow> [] | Some ws \<Rightarrow> ws)"
  by (simp_all add: batch_def once_def split: option.splits)

lemma browser_sections_at_most:
  assumes "(k, L) \<in> set browser_pairs"
  shows "list_all2 (adds_at_most k L) (browser_sections ev data A) (sizes (browser_categories data) k)"
proof -
  have c: "''wallets'' \<noteq> k \<Longrightarrow> ''Wallet'' \<noteq> L"
    "''preferences'' \<noteq> k \<Longrightarrow> ''Preferences'' \<noteq> L"
    "''tradingPreferences'' \<noteq> k \<Longrightarrow> ''Trading preferences'' \<noteq> L"
    "''dismissedItems'' \<noteq> k \<Longrightarrow> ''Dismissed item'' \<noteq> L"
    "''affiliates'' \<noteq> k \<Longrightarrow> ''Affiliates'' \<noteq> L"
    "''transfers'' \<noteq> k \<Longrightarrow> ''Transfer'' \<noteq> L"
    "''swaps'' \<noteq> k \<Longrightarrow> ''Swap'' \<noteq> L"
    using assms by (auto simp: browser_pairs_def)
  have 1: "adds_at_most k L
             (each_record (sql_now ev) walletStmt (wallet_params A) ''wallets''
                (about ''Wallet'' ''address'') (case wallets data of None \<Rightarrow> [] | Some ws \<Rightarrow> ws))
             (if ''wallets'' = k then batch (wallets data) else 0)"
    unfolding sizes_alt(3) by (rule each_about_at_most [OF c(1)])
  have 2: "adds_at_most k L
             (\<lambda>s. case preferences data of
                     None \<Rightarrow> Inr s
                   | Some p \<Rightarrow> Inr (attempt (sql_now ev) prefStmt (pref_params A p)
                                     ''preferences'' ''Preferences'' s))
             (if ''preferences'' = k then once (preferences data) else 0)"
    unfolding sizes_alt(2) by (rule optional_at_most) (rule attempt_at_most [OF c(2)])
  have 3: "adds_at_most k L
             (\<lambda>s. case tradingPreferences data of
                     None \<Rightarrow> Inr s
                   | Some p \<Rightarrow> Inr (attempt (sql_now ev) tradePrefStmt (tradePref_params ev A p)
                                     ''tradingPreferences'' ''Trading preferences'' s))
             (if ''tradingPreferences'' = k then once (tradingPreferences data) else 0)"
    unfolding sizes_alt(2) by (rule optional_at_most) (rule attempt_at_most [OF c(3)])
  have 4: "adds_at_most k L
             (\<lambda>s. case dismissedItems data of
                     None \<Rightarrow> Inr s
                   | Some xs \<Rightarrow> each_record (sql_now ev) dismissedStmt (dismissed_params ev A)
                                  ''dismissedItems'' (about ''Dismissed item'' ''key'') xs s)
             (if ''dismissedItems'' = k then batch (dismissedItems data) else 0)"
    unfolding sizes_alt(1) by (rule optional_at_most) (rule each_about_at_most [OF c(4)])
  have 5: "adds_at_most k L
             (\<lambda>s. case affiliates data of
                     None \<Rightarrow> Inr s
                   | Some a \<Rightarrow>
                       if a = [] then Inr s
                       else Inr (attempt (sql_now ev) affiliateStmt (affiliate_params ev A a)
                                   ''affiliates'' ''Affiliates'' s))
             (if ''affiliates'' = k
                then (case affiliates data of None \<Rightarrow> 0 | Some a \<Rightarrow> if a = [] then 0 else 1) else 0)"
  proof (cases "affiliates data")
    case None
    then show ?thesis by (simp add: adds_at_most_def)
  next
    case (Some a)
    show ?thesis
    proof (cases "a = []")
      case True
      then show ?thesis using Some by (simp add: adds_at_most_def)
    next
      case False
      have f1: "adds_at_most k L
              (\<lambda>s. Inr (attempt (sql_now ev) affiliateStmt (affiliate_params ev A a)
                          ''affiliates'' ''Affiliates'' s))
              (if ''affiliates'' = k then 1 else 0)"
        by (rule attempt_at_most [OF c(5)])
      have f2: "(\<lambda>s. case affiliates data of
                     None \<Rightarrow> Inr s
                   | Some a \<Rightarrow>
                       if a = [] then Inr s
                       else Inr (attempt (sql_now ev) affiliateStmt (affiliate_params ev A a)
                                   ''affiliates'' ''Affiliates'' s)) =
                 (\<lambda>s. Inr (attempt (sql_now ev) affiliateStmt (affiliate_params ev A a)
                          ''affiliates'' ''Affiliates'' s))"
        using Some False by simp
      have f3: "(if ''affiliates'' = k
                then (case affiliates data of None \<Rightarrow> 0 | Some a \<Rightarrow> if a = [] then 0 else 1) else 0) =
                (if ''affiliates'' = k then 1 else (0::nat))"
        using Some False by simp
      show ?thesis unfolding f2 f3 by (rule f1)
    qed
  qed
  have 6: "adds_at_most k L
             (\<lambda>s. case transfers data of
                     None \<Rightarrow> Inr s
                   | Some xs \<Rightarrow> each_record (sql_now ev) browserTransferStmt
                                  (browser_transfer_params ev A)
                                  ''transfers'' (unless_unique ''Transfer'' ''id'') xs s)
             (if ''transfers'' = k then batch (transfers data) else 0)"
    unfolding sizes_alt(1) by (rule optional_at_most) (rule each_unless_at_most [OF c(6)])
  have 7: "adds_at_most k L
             (\<lambda>s. case swaps data of
                     None \<Rightarrow> Inr s
                   | Some xs \<Rightarrow> each_record (sql_now ev) swapStmt (swap_params ev A)
                                  ''swaps'' (unless_unique ''Swap'' ''id'') xs s)
             (if ''swaps'' = k then batch (swaps data) else 0)"
    unfolding sizes_alt(1) by (rule optional_at_most) (rule each_unless_at_most [OF c(7)])
  have 8: "adds_at_most k L (sync_meta ev ''browser_storage'' A) 0"
    by (rule sync_meta_at_most)
  show ?thesis
    unfolding browser_sections_def sizes_def browser_categories_def
    using 1 2 3 4 5 6 7 8 by simp
qed

lemma each_about_exactly:
  assumes "k' \<noteq> k \<Longrightarrow> l \<noteq> L" and "k' = k \<Longrightarrow> l = L"
  shows "adds_exactly k L (each_record now st params k' (about l c) xs) (if k' = k then length xs else 0)"
proof (cases "k' = k")
  case True
  then show ?thesis
    using each_record_exactly [of "about l c" L k now st params xs] assms(2)
    by (simp add: about_def)
next
  case False
  then show ?thesis
    using each_record_exactly_other [of "about l c" l L k' k now st params xs] assms(1)
    by (auto dest: reporters)
qed

lemma each_always_exactly:
  assumes "k' \<noteq> k \<Longrightarrow> l \<noteq> L" and "k' = k \<Longrightarrow> l = L"
  shows "adds_exactly k L (each_record now st params k' (always l) xs) (if k' = k then length xs else 0)"
proof (cases "k' = k")
  case True
  then show ?thesis
    using each_record_exactly [of "always l" L k now st params xs] assms(2)
    by (simp add: always_def)
next
  case False
  then show ?thesis
    using each_record_exactly_other [of "always l" l L k' k now st params xs] assms(1)
    by (auto dest: reporters)
qed

lemma each_unless_exactly:
  assumes "k' \<noteq> k" and "l \<noteq> L"
  shows "adds_exactly k L (each_record now st params k' (unless_unique l c) xs)
           (if k' = k then length xs else 0)"
  using each_record_exactly_other [of "unless_unique l c" l L k' k now st params xs] assms
  by (auto dest: reporters)

lemma optional_exactly:
  assumes "\<And>x. opt = Some x \<Longrightarrow> adds_exactly k L (g x) (n x)"
  shows "adds_exactly k L (\<lambda>s. case opt of None \<Rightarrow> Inr s | Some x \<Rightarrow> g x s)
           (case opt of None \<Rightarrow> 0 | Some x \<Rightarrow> n x)"
proof (cases opt)
  case None
  then show ?thesis by (simp add: adds_exactly_def)
next
  case (Some x)
  then have "(\<lambda>s. case opt of None \<Rightarrow> Inr s | Some x \<Rightarrow> g x s) = g x" by simp
  then show ?thesis using assms [OF Some] Some by simp
qed

lemma browser_sections_exactly:
  assumes "(k, L) \<in> set browser_total_pairs"
  shows "list_all2 (adds_exactly k L) (browser_sections ev data A) (sizes (browser_categories data) k)"
proof -
  have c: "''wallets'' \<noteq> k \<Longrightarrow> ''Wallet'' \<noteq> L"
    "''preferences'' \<noteq> k \<Longrightarrow> ''Preferences'' \<noteq> L"
    "''tradingPreferences'' \<noteq> k \<Longrightarrow> ''Trading preferences'' \<noteq> L"
    "''dismissedItems'' \<noteq> k \<Longrightarrow> ''Dismissed item'' \<noteq> L"
    "''affiliates'' \<noteq> k \<Longrightarrow> ''Affiliates'' \<noteq> L"
    "''transfers'' \<noteq> k" "''Transfer'' \<noteq> L"
    "''swaps'' \<noteq> k" "''Swap'' \<noteq> L"
    using assms by (auto simp: browser_total_pairs_def)
  have e: "''wallets'' = k \<Longrightarrow> ''Wallet'' = L"
    "''preferences'' = k \<Longrightarrow> ''Preferences'' = L"
    "''tradingPreferences'' = k \<Longrightarrow> ''Trading preferences'' = L"
    "''dismissedItems'' = k \<Longrightarrow> ''Dismissed item'' = L"
    "''affiliates'' = k \<Longrightarrow> ''Affiliates'' = L"
    using assms by (auto simp: browser_total_pairs_def)
  have 1: "adds_exactly k L
             (each_record (sql_now ev) walletStmt (wallet_params A) ''wallets''
                (about ''Wallet'' ''address'') (case wallets data of None \<Rightarrow> [] | Some ws \<Rightarrow> ws))
             (if ''wallets'' = k then batch (wallets data) else 0)"
    unfolding sizes_alt(3) by (rule each_about_exactly [OF c(1) e(1)])
  have 2: "adds_exactly k L
             (\<lambda>s. case preferences data of
                     None \<Rightarrow> Inr s
                   | Some p \<Rightarrow> Inr (attempt (sql_now ev) prefStmt (pref_params A p)
                                     ''preferences'' ''Preferences'' s))
             (if ''preferences'' = k then once (preferences data) else 0)"
    unfolding sizes_alt(2) by (rule optional_exactly) (rule attempt_exactly [OF c(2) e(2)])
  have 3: "adds_exactly k L
             (\<lambda>s. case tradingPreferences data of
                     None \<Rightarrow> Inr s
                   | Some p \<Rightarrow> Inr (attempt (sql_now ev) tradePrefStmt (tradePref_params ev A p)
                                     ''tradingPreferences'' ''Trading preferences'' s))
             (if ''tradingPreferences'' = k then once (tradingPreferences data) else 0)"
    unfolding sizes_alt(2) by (rule optional_exactly) (rule attempt_exactly [OF c(3) e(3)])
  have 4: "adds_exactly k L
             (\<lambda>s. case dismissedItems data of
                     None \<Rightarrow> Inr s
                   | Some xs \<Rightarrow> each_record (sql_now ev) dismissedStmt (dismissed_params ev A)
                                  ''dismissedItems'' (about ''Dismissed item'' ''key'') xs s)
             (if ''dismissedItems'' = k then batch (dismissedItems data) else 0)"
    unfolding sizes_alt(1) by (rule optional_exactly) (rule each_about_exactly [OF c(4) e(4)])
  have 5: "adds_exactly k L
             (\<lambda>s. case affiliates data of
                     None \<Rightarrow> Inr s
                   | Some a \<Rightarrow>
                       if a = [] then Inr s
                       else Inr (attempt (sql_now ev) affiliateStmt (affiliate_params ev A a)
                                   ''affiliates'' ''Affiliates'' s))
             (if ''affiliates'' = k
                then (case affiliates data of None \<Rightarrow> 0 | Some a \<Rightarrow> if a = [] then 0 else 1) else 0)"
  proof (cases "affiliates data")
    case None
    then show ?thesis by (simp add: adds_exactly_def)
  next
    case (Some a)
    show ?thesis
    proof (cases "a = []")
      case True
      then show ?thesis using Some by (simp add: adds_exactly_def)
    next
      case False
      have f1: "adds_exactly k L
              (\<lambda>s. Inr (attempt (sql_now ev) affiliateStmt (affiliate_params ev A a)
                          ''affiliates'' ''Affiliates'' s))
              (if ''affiliates'' = k then 1 else 0)"
        by (rule attempt_exactly [OF c(5) e(5)])
      have f2: "(\<lambda>s. case affiliates data of
                     None \<Rightarrow> Inr s
                   | Some a \<Rightarrow>
                       if a = [] then Inr s
                       else Inr (attempt (sql_now ev) affiliateStmt (affiliate_params ev A a)
                                   ''affiliates'' ''Affiliates'' s)) =
                 (\<lambda>s. Inr (attempt (sql_now ev) affiliateStmt (affiliate_params ev A a)
                          ''affiliates'' ''Affiliates'' s))"
        using Some False by simp
      have f3: "(if ''affiliates'' = k
                then (case affiliates data of None \<Rightarrow> 0 | Some a \<Rightarrow> if a = [] then 0 else 1) else 0) =
                (if ''affiliates'' = k then 1 else (0::nat))"
        using Some False by simp
      show ?thesis unfolding f2 f3 by (rule f1)
    qed
  qed
  have 6: "adds_exactly k L
             (\<lambda>s. case transfers data of
                     None \<Rightarrow> Inr s
                   | Some xs \<Rightarrow> each_record (sql_now ev) browserTransferStmt
                                  (browser_transfer_params ev A)
                                  ''transfers'' (unless_unique ''Transfer'' ''id'') xs s)
             (if ''transfers'' = k then batch (transfers data) else 0)"
    unfolding sizes_alt(1) by (rule optional_exactly) (rule each_unless_exactly [OF c(6) c(7)])
  have 7: "adds_exactly k L
             (\<lambda>s. case swaps data of
                     None \<Rightarrow> Inr s
                   | Some xs \<Rightarrow> each_record (sql_now ev) swapStmt (swap_params ev A)
                                  ''swaps'' (unless_unique ''Swap'' ''id'') xs s)
             (if ''swaps'' = k then batch (swaps data) else 0)"
    unfolding sizes_alt(1) by (rule optional_exactly) (rule each_unless_exactly [OF c(8) c(9)])
  have 8: "adds_exactly k L (sync_meta ev ''browser_storage'' A) 0"
    by (rule sync_meta_exactly)
  show ?thesis
    unfolding browser_sections_def sizes_def browser_categories_def
    using 1 2 3 4 5 6 7 8 by simp
qed

lemma accounted_for_start [simp]:
  "accounted_for k L (browser_result ev) = 0" "accounted_for k L (chain_result ev) = 0"
  by (simp_all add: accounted_for_def browser_result_def chain_result_def count_of_def)

lemma accounted_for_failed:
  "L \<noteq> l \<Longrightarrow> accounted_for k L (pushed (Plain l e) (r\<lparr>success := False\<rparr>)) = accounted_for k L r"
  by (simp add: accounted_for_def)


lemma browser_outcome:
  obtains (commit) A where
      "steps (browser_sections ev data A) (d, browser_result ev) = (None, syncBrowserData ev d data)"
  | (abort) A e where
      "fst (steps (browser_sections ev data A) (d, browser_result ev)) = Some e"
      "syncBrowserData ev d data =
         (d, pushed (Plain ''Transaction failed'' e)
               ((snd (snd (steps (browser_sections ev data A) (d, browser_result ev))))\<lparr>success := False\<rparr>))"
  | (nowallet)
      "syncBrowserData ev d data =
         (d, pushed (Plain ''Transaction failed'' (no_wallet data)) ((browser_result ev)\<lparr>success := False\<rparr>))"
      "primaryWallet data = None"
proof (cases "primaryWallet data")
  case None
  then show ?thesis
    by (intro nowallet) (simp add: syncBrowserData_def transact_def browser_transaction_def)
next
  case (Some w)
  let ?A = "js_get w ''address''"
  obtain out s where st: "steps (browser_sections ev data ?A) (d, browser_result ev) = (out, s)"
    by (cases "steps (browser_sections ev data ?A) (d, browser_result ev)")
  show ?thesis
  proof (cases out)
    case None
    then show ?thesis
      using st Some by (intro commit [of ?A]) (simp add: syncBrowserData_def transact_def browser_transaction_def)
  next
    case (Some e)
    then show ?thesis
      using st \<open>primaryWallet data = Some w\<close>
      by (intro abort [of ?A e]) (simp_all add: syncBrowserData_def transact_def browser_transaction_def)
  qed
qed

lemma browser_accounted_le:
  assumes "(k, L) \<in> set browser_pairs"
  shows "accounted_for k L (snd (syncBrowserData ev d data)) \<le> sum_list (sizes (browser_categories data) k)"
proof -
  have L: "L \<noteq> ''Transaction failed''"
    using assms by (auto simp: browser_pairs_def)
  show ?thesis
  proof (cases rule: browser_outcome [of ev data d])
    case (commit A)
    then show ?thesis
      using steps_at_most [OF browser_sections_at_most [OF assms, of ev data A], of "(d, browser_result ev)"]
      by simp
  next
    case (abort A e)
    then show ?thesis
      using steps_at_most [OF browser_sections_at_most [OF assms, of ev data A], of "(d, browser_result ev)"] L
      by (simp add: accounted_for_failed)
  next
    case nowallet
    then show ?thesis using L by (simp add: accounted_for_failed)
  qed
qed

lemma browser_accounted_eq:
  assumes "(k, L) \<in> set browser_total_pairs" and "success (snd (syncBrowserData ev d data))"
  shows "accounted_for k L (snd (syncBrowserData ev d data)) = sum_list (sizes (browser_categories data) k)"
proof (cases rule: browser_outcome [of ev data d])
  case (commit A)
  have "k \<in> set (map fst (synced (snd (d, browser_result ev))))"
    using assms(1) by (auto simp: browser_total_pairs_def browser_result_def)
  from steps_exactly [OF browser_sections_exactly [OF assms(1)] commit this]
  show ?thesis by simp
next
  case (abort A e)
  then show ?thesis using assms(2) by simp
next
  case nowallet
  then show ?thesis using assms(2) by simp
qed

lemma chain_outcome:
  obtains (commit)
      "steps (chain_sections ev a f) (d, chain_result ev) = (None, syncBlockchainData ev d a f)"
  | (abort) e where
      "fst (steps (chain_sections ev a f) (d, chain_result ev)) = Some e"
      "syncBlockchainData ev d a f =
         (d, pushed (Plain ''Sync failed'' e)
               ((snd (snd (steps (chain_sections ev a f) (d, chain_result ev))))\<lparr>success := False\<rparr>))"
proof -
  obtain out s where st: "steps (chain_sections ev a f) (d, chain_result ev) = (out, s)"
    by (cases "steps (chain_sections ev a f) (d, chain_result ev)")
  show ?thesis
  proof (cases out)
    case None
    then show ?thesis
      using st by (intro commit) (simp add: syncBlockchainData_def transact_def)
  next
    case (Some e)
    then show ?thesis
      using st by (intro abort [of e]) (simp_all add: syncBlockchainData_def transact_def)
  qed
qed







lemma steps_snoc_None:
  "steps (fs @ [g]) s = (None, s') \<Longrightarrow> \<exists>s1. steps fs s = (None, s1) \<and> g s1 = Inr s'"
  by (induction fs arbitrary: s) (auto split: sum.splits)

lemma sync_meta_unowned:
  assumes "schema (fst s) ''sync_metadata'' = Some sync_metadata"
    and "\<And>v. bind A = Inr v \<Longrightarrow> v = Null"
  shows "\<exists>e. sync_meta ev ty A s = Inl e"
proof -
  let ?ps = "[A, JNum (int (totalRecords (snd s)))]"
  have p: "prepare (fst s) (syncMetaStmt ty) = Inr (syncMetaStmt ty)"
    using assms(1) by (rule prepare_sync_meta)
  have "\<exists>e. run (sql_now ev) (fst s) (syncMetaStmt ty) ?ps = Inl e"
  proof (cases "bind A")
    case (Inl e)
    then have "bind_values (sql_now ev) (vals (syncMetaStmt ty)) ?ps = Inl e"
      by (simp add: syncMetaStmt_def)
    then show ?thesis
      using assms(1) by (simp add: run_def)
  next
    case (Inr v)
    then have "bind A = Inr Null" using assms(2) by simp
    then have "bind_values (sql_now ev) (vals (syncMetaStmt ty)) ?ps =
                 Inr [Null, Text ty, Text (sql_now ev), Text ''success'',
                      Integer (int (totalRecords (snd s)))]"
      by (simp add: syncMetaStmt_def and_then_def)
    moreover have "new_row (sql_now ev) sync_metadata (cols (syncMetaStmt ty))
                     [Null, Text ty, Text (sql_now ev), Text ''success'',
                      Integer (int (totalRecords (snd s)))] ''wallet_address'' = Null"
      by (simp add: syncMetaStmt_def new_row_def)
    ultimately show ?thesis
      using assms(1) by (simp add: run_def Let_def) (simp add: sync_metadata_def)
  qed
  then show ?thesis
    using p by (auto simp: sync_meta_def)
qed

lemma sync_meta_schema:
  "sync_meta ev ty A s = Inr s' \<Longrightarrow> schema (fst s') = schema (fst s)"
  by (auto simp: sync_meta_def split: sum.splits dest: run_schema)

lemma browser_owner_required:
  assumes "schema d = schema_sql" and "\<And>v. bind A = Inr v \<Longrightarrow> v = Null"
  shows "fst (steps (browser_sections ev data A) (d, r)) \<noteq> None"
proof
  assume "fst (steps (browser_sections ev data A) (d, r)) = None"
  then obtain s' where s': "steps (browser_sections ev data A) (d, r) = (None, s')"
    by (metis prod.collapse)
  have "browser_sections ev data A =
          butlast (browser_sections ev data A) @ [sync_meta ev ''browser_storage'' A]"
    by (simp add: browser_sections_def)
  with s' steps_snoc_None [of "butlast (browser_sections ev data A)"
      "sync_meta ev ''browser_storage'' A" "(d, r)" s']
  obtain s1 where run: "sync_meta ev ''browser_storage'' A s1 = Inr s'"
    by auto
  have "schema (fst s') = schema d"
    using browser_keeps [of ev data A d r] s' by simp
  then have m: "schema (fst s1) ''sync_metadata'' = Some sync_metadata"
    using sync_meta_schema [OF run] assms(1) by (simp add: schema_sql_tables)
  have "\<exists>e. sync_meta ev ''browser_storage'' A s1 = Inl e"
    using m assms(2) by (rule sync_meta_unowned)
  with run show False by simp
qed

lemma ownerless_aborts:
  assumes "schema d = schema_sql" and "ownerless data"
  shows "fst (syncBrowserData ev d data) = d" and "\<not> success (snd (syncBrowserData ev d data))"
proof -
  have "fst (syncBrowserData ev d data) = d \<and> \<not> success (snd (syncBrowserData ev d data))"
  proof (cases rule: browser_outcome [of ev data d])
    case (commit A)
    show ?thesis
    proof (cases "primaryWallet data")
      case None
      then show ?thesis
        by (simp add: syncBrowserData_def transact_def browser_transaction_def)
    next
      case (Some w)
      then have "\<And>v. bind (js_get w ''address'') = Inr v \<Longrightarrow> v = Null"
        using assms(2) by (auto simp: ownerless_def split: sum.splits)
      from browser_owner_required [OF assms(1) this, where ev = ev and data = data and r = "browser_result ev"]
      obtain e s where "steps (browser_sections ev data (js_get w ''address'')) (d, browser_result ev) = (Some e, s)"
        by (metis prod.collapse not_None_eq)
      then show ?thesis
        using Some by (simp add: syncBrowserData_def transact_def browser_transaction_def)
    qed
  next
    case (abort A e)
    then show ?thesis by simp
  next
    case nowallet
    then show ?thesis by simp
  qed
  then show "fst (syncBrowserData ev d data) = d" and "\<not> success (snd (syncBrowserData ev d data))"
    by simp_all
qed

lemma steps_prefix_abort:
  assumes "Q s"
    and "\<And>f s. f \<in> set pre \<Longrightarrow> Q s \<Longrightarrow> \<exists>s'. f s = Inr s' \<and> Q s'"
    and "\<And>s. Q s \<Longrightarrow> g s = Inl e"
  shows "\<exists>s'. steps (pre @ g # post) s = (Some e, s') \<and> Q s'"
  using assms(1,2)
proof (induction pre arbitrary: s)
  case Nil
  then show ?case using assms(3) by simp
next
  case (Cons f pre)
  from Cons.prems(2) [of f s] Cons.prems(1) obtain s1 where s1: "f s = Inr s1" "Q s1"
    by auto
  have "\<exists>s'. steps (pre @ g # post) s1 = (Some e, s') \<and> Q s'"
    using Cons.IH [OF s1(2)] Cons.prems(2) by (metis list.set_intros(2))
  then show ?case using s1(1) by simp
qed

lemma attempt_schema: "schema (fst (attempt now st ps k label s)) = schema (fst s)"
  by (rule attempt_inv [where P = "\<lambda>s'. schema (fst s') = schema (fst s)"])
     (auto dest: run_schema)

lemma prepare_browser_sql:
  assumes "schema d = schema_sql"
  shows "prepare d walletStmt = Inr walletStmt"
    and "prepare d dismissedStmt = Inr dismissedStmt"
    and "prepare d browserTransferStmt = Inl NoMatchingConstraint"
    and "prepare d swapStmt = Inl NoMatchingConstraint"
    and "prepare d transferStmt = Inl NoMatchingConstraint"
  using assms
  by (simp_all add: prepare_def schema_sql_tables walletStmt_def user_wallets_def
        dismissedStmt_def dismissed_items_def browserTransferStmt_def transferStmt_def
        transfer_columns_def transfers_table_def swapStmt_def swaps_table_def)

lemma browser_section_returns:
  assumes "f \<in> set (take 5 (browser_sections ev data A))" and "schema (fst s) = schema_sql"
  shows "\<exists>s'. f s = Inr s' \<and> schema (fst s') = schema_sql"
proof -
  have w: "\<exists>s'. each_record (sql_now ev) walletStmt params k report xs s = Inr s' \<and>
             schema (fst s') = schema_sql" for params k report xs
    using each_record_ok [OF prepare_browser_sql(1) [OF assms(2)]] assms(2) by simp
  have dm: "\<exists>s'. each_record (sql_now ev) dismissedStmt params k report xs s = Inr s' \<and>
             schema (fst s') = schema_sql" for params k report xs
    using each_record_ok [OF prepare_browser_sql(2) [OF assms(2)]] assms(2) by simp
  from assms(1) have "f = each_record (sql_now ev) walletStmt (wallet_params A) ''wallets''
        (about ''Wallet'' ''address'') (case wallets data of None \<Rightarrow> [] | Some ws \<Rightarrow> ws) \<or>
      f = (\<lambda>s. case preferences data of
              None \<Rightarrow> Inr s
            | Some p \<Rightarrow> Inr (attempt (sql_now ev) prefStmt (pref_params A p)
                              ''preferences'' ''Preferences'' s)) \<or>
      f = (\<lambda>s. case tradingPreferences data of
              None \<Rightarrow> Inr s
            | Some p \<Rightarrow> Inr (attempt (sql_now ev) tradePrefStmt (tradePref_params ev A p)
                              ''tradingPreferences'' ''Trading preferences'' s)) \<or>
      f = (\<lambda>s. case dismissedItems data of
              None \<Rightarrow> Inr s
            | Some xs \<Rightarrow> each_record (sql_now ev) dismissedStmt (dismissed_params ev A)
                           ''dismissedItems'' (about ''Dismissed item'' ''key'') xs s) \<or>
      f = (\<lambda>s. case affiliates data of
              None \<Rightarrow> Inr s
            | Some a \<Rightarrow>
                if a = [] then Inr s
                else Inr (attempt (sql_now ev) affiliateStmt (affiliate_params ev A a)
                            ''affiliates'' ''Affiliates'' s))"
    by (simp add: browser_sections_def)
  then show ?thesis
  proof (elim disjE)
    assume "f = each_record (sql_now ev) walletStmt (wallet_params A) ''wallets''
        (about ''Wallet'' ''address'') (case wallets data of None \<Rightarrow> [] | Some ws \<Rightarrow> ws)"
    then show ?thesis using w by simp
  next
    assume "f = (\<lambda>s. case preferences data of
              None \<Rightarrow> Inr s
            | Some p \<Rightarrow> Inr (attempt (sql_now ev) prefStmt (pref_params A p)
                              ''preferences'' ''Preferences'' s))"
    then show ?thesis using assms(2) by (cases "preferences data") (simp_all add: attempt_schema)
  next
    assume "f = (\<lambda>s. case tradingPreferences data of
              None \<Rightarrow> Inr s
            | Some p \<Rightarrow> Inr (attempt (sql_now ev) tradePrefStmt (tradePref_params ev A p)
                              ''tradingPreferences'' ''Trading preferences'' s))"
    then show ?thesis using assms(2) by (cases "tradingPreferences data") (simp_all add: attempt_schema)
  next
    assume "f = (\<lambda>s. case dismissedItems data of
              None \<Rightarrow> Inr s
            | Some xs \<Rightarrow> each_record (sql_now ev) dismissedStmt (dismissed_params ev A)
                           ''dismissedItems'' (about ''Dismissed item'' ''key'') xs s)"
    then show ?thesis using assms(2) dm by (cases "dismissedItems data") simp_all
  next
    assume "f = (\<lambda>s. case affiliates data of
              None \<Rightarrow> Inr s
            | Some a \<Rightarrow>
                if a = [] then Inr s
                else Inr (attempt (sql_now ev) affiliateStmt (affiliate_params ev A a)
                            ''affiliates'' ''Affiliates'' s))"
    then show ?thesis
    proof (cases "affiliates data")
      case None
      then show ?thesis using \<open>f = _\<close> assms(2) by simp
    next
      case (Some a)
      then show ?thesis using \<open>f = _\<close> assms(2) by (cases "a = []") (simp_all add: attempt_schema)
    qed
  qed
qed

lemma browser_aborts_on_transfers:
  assumes "schema d = schema_sql" and "transfers data \<noteq> None \<or> swaps data \<noteq> None"
  shows "\<exists>s. steps (browser_sections ev data A) (d, r) = (Some NoMatchingConstraint, s)"
proof (cases "transfers data")
  case (Some xs)
  let ?g = "each_record (sql_now ev) browserTransferStmt (browser_transfer_params ev A)
              ''transfers'' (unless_unique ''Transfer'' ''id'') xs"
  have split: "browser_sections ev data A =
                 take 5 (browser_sections ev data A) @ ?g # drop 6 (browser_sections ev data A)"
    using Some by (simp add: browser_sections_def)
  have "\<exists>s'. steps (take 5 (browser_sections ev data A) @ ?g # drop 6 (browser_sections ev data A)) (d, r) =
              (Some NoMatchingConstraint, s') \<and> schema (fst s') = schema_sql"
  proof (rule steps_prefix_abort [where Q = "\<lambda>s. schema (fst s) = schema_sql"])
    show "schema (fst (d, r)) = schema_sql" using assms(1) by simp
  next
    fix f and s :: txn
    assume "f \<in> set (take 5 (browser_sections ev data A))" "schema (fst s) = schema_sql"
    then show "\<exists>s'. f s = Inr s' \<and> schema (fst s') = schema_sql"
      by (rule browser_section_returns)
  next
    fix s :: txn
    assume "schema (fst s) = schema_sql"
    then show "?g s = Inl NoMatchingConstraint"
      by (simp add: each_record_def prepare_browser_sql)
  qed
  then show ?thesis using split by metis
next
  case None
  then obtain ys where ys: "swaps data = Some ys" using assms(2) by auto
  let ?g = "each_record (sql_now ev) swapStmt (swap_params ev A)
              ''swaps'' (unless_unique ''Swap'' ''id'') ys"
  have split: "browser_sections ev data A =
                 (take 5 (browser_sections ev data A) @ [Inr]) @ ?g # drop 7 (browser_sections ev data A)"
    using None ys by (simp add: browser_sections_def)
  have "\<exists>s'. steps ((take 5 (browser_sections ev data A) @ [Inr]) @ ?g # drop 7 (browser_sections ev data A)) (d, r) =
              (Some NoMatchingConstraint, s') \<and> schema (fst s') = schema_sql"
  proof (rule steps_prefix_abort [where Q = "\<lambda>s. schema (fst s) = schema_sql"])
    show "schema (fst (d, r)) = schema_sql" using assms(1) by simp
  next
    fix f and s :: txn
    assume f: "f \<in> set (take 5 (browser_sections ev data A) @ [Inr])" and s: "schema (fst s) = schema_sql"
    show "\<exists>s'. f s = Inr s' \<and> schema (fst s') = schema_sql"
    proof (cases "f \<in> set (take 5 (browser_sections ev data A))")
      case True
      then show ?thesis using s by (rule browser_section_returns)
    next
      case False
      then have "f = Inr" using f by simp
      then show ?thesis using s by simp
    qed
  next
    fix s :: txn
    assume "schema (fst s) = schema_sql"
    then show "?g s = Inl NoMatchingConstraint"
      by (simp add: each_record_def prepare_browser_sql)
  qed
  then show ?thesis using split by metis
qed

lemma browser_success_no_transfers:
  assumes "schema d = schema_sql" and "success (snd (syncBrowserData ev d data))"
  shows "transfers data = None" and "swaps data = None"
proof -
  have "transfers data = None \<and> swaps data = None"
  proof (rule ccontr)
    assume "\<not> (transfers data = None \<and> swaps data = None)"
    then have t: "transfers data \<noteq> None \<or> swaps data \<noteq> None" by simp
    show False
    proof (cases rule: browser_outcome [of ev data d])
      case (commit A)
      then show ?thesis
        using browser_aborts_on_transfers [OF assms(1) t, of ev A "browser_result ev"] by simp
    next
      case (abort A e)
      then show ?thesis using assms(2) by simp
    next
      case nowallet
      then show ?thesis using assms(2) by simp
    qed
  qed
  then show "transfers data = None" and "swaps data = None" by simp_all
qed



lemma run_built_None:
  assumes "schema d (tbl st) = Some td" and "built now td st ps = None"
  shows "\<exists>e. run now d st ps = Inl e"
  using assms by (auto simp: run_def built_def Let_def split: sum.splits if_splits)




















lemma synced_failed [simp]:
  "synced (pushed m (r\<lparr>success := False\<rparr>)) = synced r"
  by (simp add: pushed_def)






section \<open>The claims\<close>

text \<open>
  Claim C1 (code defect). The claim: the ledger row written at the end of a pass says
  \<^verbatim>\<open>success\<close> when no record failed and \<^verbatim>\<open>partial\<close> when some failed and at least one was
  written. Both handlers write the literal \<^verbatim>\<open>'success'\<close>. Here a batch of three wallets, the
  first without a type, is synced into an empty store: one error is reported, two wallets
  are counted, the pass commits, and the ledger row says \<^verbatim>\<open>success\<close>.
\<close>

theorem partial_pass_recorded_as_success:
  "success (snd (syncBrowserData example_env empty_store partial_batch)) \<and>
   errors (snd (syncBrowserData example_env empty_store partial_batch)) =
     [About ''Wallet'' (JStr ''0xbad'') NotNullFailed] \<and>
   count_of (synced (snd (syncBrowserData example_env empty_store partial_batch))) ''wallets'' = 2 \<and>
   map (\<lambda>r. r ''sync_status'')
       (rows (fst (syncBrowserData example_env empty_store partial_batch)) ''sync_metadata'') =
     [Text ''success'']"
  by code_simp

text \<open>
  Claim C2 (code defect). The claim: a position whose \<^verbatim>\<open>(wallet_address, position_id)\<close>
  is already stored has its size, unrealized P&L and update time overwritten, and no second
  row appears. \<^verbatim>\<open>positionStmt\<close> names that pair as its conflict target, but \<^verbatim>\<open>schema.sql\<close>
  declares no \<^verbatim>\<open>UNIQUE\<close> constraint on \<^verbatim>\<open>positions\<close>: on a store with that schema the
  statement is refused when it is prepared, outside any \<^verbatim>\<open>try\<close>, so every pass of
  \<^verbatim>\<open>syncBlockchainData\<close> is rolled back and reports \<^verbatim>\<open>Sync failed\<close>.
\<close>

theorem position_upsert_never_prepared:
  assumes "schema d = schema_sql"
  shows "fst (syncBlockchainData ev d a f) = d \<and>
         \<not> success (snd (syncBlockchainData ev d a f)) \<and>
         last (errors (snd (syncBlockchainData ev d a f))) = Plain ''Sync failed'' NoMatchingConstraint"
proof -
  from chain_aborts_on_schema_sql [OF assms]
  obtain s where "steps (chain_sections ev a f) (d, chain_result ev) = (Some NoMatchingConstraint, s)"
    by blast
  then show ?thesis
    by (simp add: syncBlockchainData_def transact_def)
qed

theorem position_upsert_never_prepared_witness:
  "\<not> success (snd (syncBlockchainData example_env position_store ''bb1'' grown_position)) \<and>
   map (\<lambda>r. r ''size'') (rows (fst (syncBlockchainData example_env position_store ''bb1'' grown_position))
                              ''positions'') = [Text ''1'']"
proof -
  have "schema position_store = schema_sql" by (simp add: position_store_def)
  from position_upsert_never_prepared [OF this, of example_env "''bb1''" grown_position]
  show ?thesis by (simp add: position_store_def held_position_def)
qed

text \<open>
  Claim C3 (code defect). The claim: a transfer whose \<^verbatim>\<open>tx_hash\<close> is already stored gets
  no second row, and the conflict is resolved by updating the status and the timestamp
  of the stored row. Both transfer statements name \<^verbatim>\<open>tx_hash\<close> as their conflict target,
  but \<^verbatim>\<open>schema.sql\<close> declares no \<^verbatim>\<open>UNIQUE\<close> constraint on \<^verbatim>\<open>transfers\<close>
  (\<^verbatim>\<open>idx_transfers_tx_hash\<close> is a plain index): on a store with that schema neither
  statement can be prepared. The session handler prepares its statement outside any
  \<^verbatim>\<open>try\<close>, so an export that carries a \<^verbatim>\<open>transfers\<close> array is rolled back with
  \<^verbatim>\<open>Transaction failed\<close>; the ledger pass is rolled back before it reaches its own
  transfer statement. No transfer is stored and none is updated.
\<close>

theorem transfer_statements_never_prepared:
  assumes "schema d = schema_sql"
  shows "prepare d browserTransferStmt = Inl NoMatchingConstraint \<and>
         prepare d transferStmt = Inl NoMatchingConstraint \<and>
         (primaryWallet data \<noteq> None \<and> transfers data \<noteq> None \<longrightarrow>
            fst (syncBrowserData ev d data) = d \<and>
            \<not> success (snd (syncBrowserData ev d data)) \<and>
            last (errors (snd (syncBrowserData ev d data))) =
              Plain ''Transaction failed'' NoMatchingConstraint) \<and>
         fst (syncBlockchainData ev d a f) = d \<and>
         \<not> success (snd (syncBlockchainData ev d a f))"
proof -
  have b: "fst (syncBrowserData ev d data) = d \<and>
           \<not> success (snd (syncBrowserData ev d data)) \<and>
           last (errors (snd (syncBrowserData ev d data))) =
             Plain ''Transaction failed'' NoMatchingConstraint"
    if "primaryWallet data = Some w" "transfers data \<noteq> None" for w
  proof -
    from browser_aborts_on_transfers [OF assms, of data ev "js_get w ''address''" "browser_result ev"] that(2)
    obtain s where "steps (browser_sections ev data (js_get w ''address'')) (d, browser_result ev) =
                      (Some NoMatchingConstraint, s)"
      by blast
    then show ?thesis
      using that(1) by (simp add: syncBrowserData_def transact_def browser_transaction_def)
  qed
  from chain_aborts_on_schema_sql [OF assms]
  obtain s where "steps (chain_sections ev a f) (d, chain_result ev) = (Some NoMatchingConstraint, s)"
    by blast
  then have c: "fst (syncBlockchainData ev d a f) = d \<and> \<not> success (snd (syncBlockchainData ev d a f))"
    by (simp add: syncBlockchainData_def transact_def)
  show ?thesis
    using prepare_browser_sql(3,5) [OF assms] b c by auto
qed

theorem transfer_statements_never_prepared_witness:
  "primaryWallet pending_transfer \<noteq> None \<and> transfers pending_transfer \<noteq> None \<and>
   \<not> success (snd (syncBrowserData example_env empty_store pending_transfer)) \<and>
   errors (snd (syncBrowserData example_env empty_store pending_transfer)) =
     [Plain ''Transaction failed'' NoMatchingConstraint] \<and>
   rows (fst (syncBrowserData example_env empty_store pending_transfer)) ''transfers'' = [] \<and>
   \<not> success (snd (syncBlockchainData example_env empty_store ''dydx1abc'' confirmed_fetched)) \<and>
   rows (fst (syncBlockchainData example_env empty_store ''dydx1abc'' confirmed_fetched)) ''transfers'' = []"
proof -
  have s: "schema empty_store = schema_sql" by (simp add: empty_store_def)
  have p: "primaryWallet pending_transfer \<noteq> None" "transfers pending_transfer \<noteq> None"
    by code_simp+
  have e: "errors (snd (syncBrowserData example_env empty_store pending_transfer)) =
     [Plain ''Transaction failed'' NoMatchingConstraint]"
    by code_simp
  show ?thesis
    using transfer_statements_never_prepared [OF s, where data = pending_transfer
        and ev = example_env and a = "''dydx1abc''" and f = confirmed_fetched] p e
    by (simp add: empty_store_def)
qed

text \<open>
  Claim C4 (corrected). The claim: a snapshot from which no wallet address can be taken
  (no wallet list, an empty one, or one that yields no candidate) is rejected with a
  4xx answer and \<^verbatim>\<open>success = false\<close>, and nothing is written. The endpoint's guard only
  asks for a truthy \<^verbatim>\<open>data.wallets\<close> whose \<^verbatim>\<open>length\<close> is not 0. A list whose only wallet
  has no address passes it: the handler runs, the primary wallet's address is
  \<^verbatim>\<open>undefined\<close>, and the endpoint answers 500.
\<close>

theorem ownerless_answer_counterexample:
  "wallets addressless_batch = Some [[(''type'', JStr ''dydx'')]] \<and>
   primaryWallet addressless_batch = Some [(''type'', JStr ''dydx'')] \<and>
   js_get [(''type'', JStr ''dydx'')] ''address'' = JUndefined \<and>
   fst (snd (post_sync_browser_data example_env empty_store (Some addressless_batch))) = 500"
  by code_simp

text \<open>
  Claim C4, as it holds. A snapshot is ownerless when it has no primary wallet (its
  \<^verbatim>\<open>wallets\<close> is not an array, or is an empty one) or when the address of its primary
  wallet is missing, \<^verbatim>\<open>null\<close> or not a value a statement can bind. On a store with the
  schema of \<^verbatim>\<open>schema.sql\<close> the handler returns \<^verbatim>\<open>success = false\<close> for every ownerless
  snapshot and the store after the call is the store before it. The endpoint answers 400
  without calling the handler when the request has no body or \<^verbatim>\<open>data.wallets\<close> is falsy or
  has length 0; every other ownerless snapshot reaches the handler and is answered 500
  with the handler's result.
\<close>

theorem ownerless_snapshot_rejected:
  assumes "schema d = schema_sql" and "ownerless data"
  shows "fst (syncBrowserData ev d data) = d \<and>
         \<not> success (snd (syncBrowserData ev d data)) \<and>
         post_sync_browser_data ev d None = (d, 400, ErrorBody) \<and>
         post_sync_browser_data ev d (Some data) =
           (if wallets_required data then (d, 400, ErrorBody)
            else (d, 500, ResultBody (snd (syncBrowserData ev d data))))"
  using ownerless_aborts [OF assms, of ev]
  by (cases "syncBrowserData ev d data") (simp add: post_sync_browser_data_def)

theorem ownerless_snapshot_rejected_witness:
  "ownerless no_data \<and> wallets_required no_data \<and>
   ownerless (no_data\<lparr>wallets := Some []\<rparr>) \<and> wallets_required (no_data\<lparr>wallets := Some []\<rparr>) \<and>
   ownerless (no_data\<lparr>wallets_value := JStr ''dydx1abc''\<rparr>) \<and>
   \<not> wallets_required (no_data\<lparr>wallets_value := JStr ''dydx1abc''\<rparr>) \<and>
   ownerless addressless_batch \<and> \<not> wallets_required addressless_batch \<and>
   post_sync_browser_data example_env empty_store (Some no_data) = (empty_store, 400, ErrorBody) \<and>
   snd (post_sync_browser_data example_env empty_store (Some (no_data\<lparr>wallets_value := JStr ''dydx1abc''\<rparr>))) =
     (500, ResultBody (snd (syncBrowserData example_env empty_store (no_data\<lparr>wallets_value := JStr ''dydx1abc''\<rparr>)))) \<and>
   errors (snd (syncBrowserData example_env empty_store (no_data\<lparr>wallets_value := JStr ''dydx1abc''\<rparr>))) =
     [Plain ''Transaction failed'' NotAFunction] \<and>
   post_sync_browser_data example_env empty_store (Some addressless_batch) =
     (empty_store, 500, ResultBody (snd (syncBrowserData example_env empty_store addressless_batch))) \<and>
   errors (snd (syncBrowserData example_env empty_store addressless_batch)) =
     [About ''Wallet'' JUndefined NotNullFailed, Plain ''Transaction failed'' NotNullFailed]"
proof -
  have s: "schema empty_store = schema_sql" by (simp add: empty_store_def)
  have o: "ownerless no_data" "ownerless (no_data\<lparr>wallets := Some []\<rparr>)"
    "ownerless (no_data\<lparr>wallets_value := JStr ''dydx1abc''\<rparr>)" "ownerless addressless_batch"
    by code_simp+
  have w: "wallets_required no_data" "wallets_required (no_data\<lparr>wallets := Some []\<rparr>)"
    "\<not> wallets_required (no_data\<lparr>wallets_value := JStr ''dydx1abc''\<rparr>)"
    "\<not> wallets_required addressless_batch"
    by code_simp+
  have e: "errors (snd (syncBrowserData example_env empty_store (no_data\<lparr>wallets_value := JStr ''dydx1abc''\<rparr>))) =
     [Plain ''Transaction failed'' NotAFunction]"
    "errors (snd (syncBrowserData example_env empty_store addressless_batch)) =
     [About ''Wallet'' JUndefined NotNullFailed, Plain ''Transaction failed'' NotNullFailed]"
    by code_simp+
  show ?thesis
    using ownerless_snapshot_rejected [OF s o(1), of example_env]
      ownerless_snapshot_rejected [OF s o(3), of example_env]
      ownerless_snapshot_rejected [OF s o(4), of example_env] o w e
    by simp
qed







text \<open>
  Claim C8 (corrected). The claim: when the indexer omits the breakdown, both the available
  and the locked balance default to the full balance. For a subaccount with equity
  \<^verbatim>\<open>100\<close> and no \<^verbatim>\<open>freeCollateral\<close> the fetcher yields available \<^verbatim>\<open>100\<close> and locked
  \<^verbatim>\<open>0\<close>.
\<close>

theorem locked_balance_counterexample:
  "fetchAccountBalances ''bb1'' (Some \<lparr>subaccounts = Some [[(''equity'', JStr ''100'')]]\<rparr>) =
     [[(''walletAddress'', JStr ''bb1''),
       (''chainId'', JStr ''blackbottle-mainnet-1''),
       (''tokenSymbol'', JStr ''USDC''),
       (''tokenDenom'',
          JStr ''ibc/8E27BA2D5493AF5636760E354E46004562C46AB7EC0CC4C1CA14E9E20E2545B5''),
       (''balance'', JStr ''100''),
       (''availableBalance'', JStr ''100''),
       (''lockedBalance'', JStr ''0'')]] \<and>
   js_get (hd (fetchAccountBalances ''bb1'' (Some \<lparr>subaccounts = Some [[(''equity'', JStr ''100'')]]\<rparr>)))
      ''lockedBalance'' \<noteq>
   js_get (hd (fetchAccountBalances ''bb1'' (Some \<lparr>subaccounts = Some [[(''equity'', JStr ''100'')]]\<rparr>)))
      ''balance''"
  by (simp add: fetchAccountBalances_def balance_of_def js_get_def js_or_def)

text \<open>
  Claim C8, as it holds. For every answer of the indexer the fetcher yields one balance
  row for each subaccount with a truthy equity, in order (none when the fetch failed or
  the answer has no subaccounts). The balance of the row is the equity; its available
  balance is the subaccount's \<^verbatim>\<open>freeCollateral\<close> when that is truthy and the equity, the
  full balance, when it is omitted; its locked balance is the string \<^verbatim>\<open>0\<close> in every row.
\<close>

theorem balance_defaults:
  "fetchAccountBalances a None = [] \<and>
   fetchAccountBalances a (Some \<lparr>subaccounts = None\<rparr>) = [] \<and>
   list_all2 (\<lambda>sub b. js_get b ''balance'' = js_get sub ''equity'' \<and>
                        js_get b ''availableBalance'' =
                          (if truthy (js_get sub ''freeCollateral'') then js_get sub ''freeCollateral''
                           else js_get sub ''equity'') \<and>
                        js_get b ''lockedBalance'' = JStr ''0'')
     (filter (\<lambda>sub. truthy (js_get sub ''equity'')) subs)
     (fetchAccountBalances a (Some \<lparr>subaccounts = Some subs\<rparr>))"
proof -
  have "js_get (balance_of a sub) ''balance'' = js_get sub ''equity'' \<and>
        js_get (balance_of a sub) ''availableBalance'' =
          (if truthy (js_get sub ''freeCollateral'') then js_get sub ''freeCollateral''
           else js_get sub ''equity'') \<and>
        js_get (balance_of a sub) ''lockedBalance'' = JStr ''0''" for sub
    by (simp add: balance_of_def js_or_def) (simp add: js_get_def)
  then show ?thesis
    by (simp add: fetchAccountBalances_def list_all2_map2 list_all2_same)
qed

theorem balance_defaults_witness:
  "map (\<lambda>b. (js_get b ''balance'', js_get b ''availableBalance'', js_get b ''lockedBalance''))
       (fetchAccountBalances ''bb1'' (Some mixed_answer)) =
     [(JStr ''100'', JStr ''100'', JStr ''0''), (JStr ''50'', JStr ''20'', JStr ''0'')]"
proof -
  have "filter (\<lambda>sub. truthy (js_get sub ''equity'')) (the (subaccounts mixed_answer)) =
          [[(''equity'', JStr ''100'')], [(''equity'', JStr ''50''), (''freeCollateral'', JStr ''20'')]]"
    by (simp add: mixed_answer_def js_get_def)
  moreover have "mixed_answer = \<lparr>subaccounts = Some (the (subaccounts mixed_answer))\<rparr>"
    by (simp add: mixed_answer_def)
  ultimately have "list_all2 (\<lambda>sub b. js_get b ''balance'' = js_get sub ''equity'' \<and>
                        js_get b ''availableBalance'' =
                          (if truthy (js_get sub ''freeCollateral'') then js_get sub ''freeCollateral''
                           else js_get sub ''equity'') \<and>
                        js_get b ''lockedBalance'' = JStr ''0'')
     [[(''equity'', JStr ''100'')], [(''equity'', JStr ''50''), (''freeCollateral'', JStr ''20'')]]
     (fetchAccountBalances ''bb1'' (Some mixed_answer))"
    using balance_defaults [of "''bb1''" "the (subaccounts mixed_answer)"] by simp
  then show ?thesis
    by (auto simp: list_all2_Cons1 js_get_def)
qed

text \<open>
  Claim C9. With a wallet list, the primary wallet is the first wallet of type
  \<^verbatim>\<open>dydx\<close> if there is one, else the first of type \<^verbatim>\<open>evm\<close> if there is one, else the
  first wallet of the list. Its address owns the batch: after the pass, every row of
  \<^verbatim>\<open>user_preferences\<close>, \<^verbatim>\<open>trading_preferences\<close>, \<^verbatim>\<open>dismissed_items\<close>, \<^verbatim>\<open>affiliates\<close>,
  \<^verbatim>\<open>transfers\<close>, \<^verbatim>\<open>swaps\<close> and \<^verbatim>\<open>sync_metadata\<close> either was in the store before or
  carries that address as its \<^verbatim>\<open>wallet_address\<close>.
\<close>

theorem primary_wallet_owns_batch:
  assumes "wallets data = Some ws"
  shows "primaryWallet data =
           (if list_ex (\<lambda>w. js_get w ''type'' = JStr ''dydx'') ws
              then Some (hd (filter (\<lambda>w. js_get w ''type'' = JStr ''dydx'') ws))
            else if list_ex (\<lambda>w. js_get w ''type'' = JStr ''evm'') ws
              then Some (hd (filter (\<lambda>w. js_get w ''type'' = JStr ''evm'') ws))
            else if ws = [] then None
            else Some (hd ws)) \<and>
         (case primaryWallet data of
            None \<Rightarrow> fst (syncBrowserData ev d data) = d
          | Some w \<Rightarrow> owned_by d (js_get w ''address'') (fst (syncBrowserData ev d data)))"
proof
  show "primaryWallet data =
           (if list_ex (\<lambda>w. js_get w ''type'' = JStr ''dydx'') ws
              then Some (hd (filter (\<lambda>w. js_get w ''type'' = JStr ''dydx'') ws))
            else if list_ex (\<lambda>w. js_get w ''type'' = JStr ''evm'') ws
              then Some (hd (filter (\<lambda>w. js_get w ''type'' = JStr ''evm'') ws))
            else if ws = [] then None
            else Some (hd ws))"
    using assms by (cases ws) (simp_all add: primaryWallet_def find_hd_filter)
next
  show "case primaryWallet data of
            None \<Rightarrow> fst (syncBrowserData ev d data) = d
          | Some w \<Rightarrow> owned_by d (js_get w ''address'') (fst (syncBrowserData ev d data))"
  proof (cases "primaryWallet data")
    case None
    then show ?thesis
      by (simp add: syncBrowserData_def transact_def browser_transaction_def)
  next
    case (Some w)
    let ?A = "js_get w ''address''"
    have inv: "owned_by d ?A (fst (snd (steps (browser_sections ev data ?A) (d, browser_result ev))))"
    proof (rule browser_sections_inv [where P = "\<lambda>s. owned_by d ?A (fst s)"])
      show "owned_by d ?A (fst (d, browser_result ev))" by (simp add: owned_by_refl)
    next
      fix s :: txn and st ps k d'
      assume "owned_by d ?A (fst s)" "browser_act ev ?A st ps k"
        "run (sql_now ev) (fst s) st ps = Inr d'"
      then show "owned_by d ?A (fst (d', counted k (snd s)))"
        using browser_act_owned_by by simp
    next
      fix s :: txn and m
      assume "owned_by d ?A (fst s)"
      then show "owned_by d ?A (fst (fst s, pushed m (snd s)))" by simp
    next
      fix s :: txn and n d'
      assume "owned_by d ?A (fst s)"
        and "run (sql_now ev) (fst s) (syncMetaStmt ''browser_storage'') [?A, JNum n] = Inr d'"
      then have "owned_by d ?A d'"
        by (rule run_owned_by) (simp_all add: syncMetaStmt_def)
      then show "owned_by d ?A (fst (d', snd s))" by simp
    qed
    show ?thesis
    proof (cases rule: transact_cases [of "browser_transaction ev data" d "browser_result ev"
          "''Transaction failed''"])
      case (commit s)
      then have "s = snd (steps (browser_sections ev data ?A) (d, browser_result ev))"
        using Some by (simp add: browser_transaction_def)
      then show ?thesis using inv commit(2) Some by (simp add: syncBrowserData_def)
    next
      case (abort e s)
      then show ?thesis using Some by (simp add: syncBrowserData_def owned_by_refl)
    qed
  qed
qed

theorem primary_wallet_owns_batch_witness:
  "primaryWallet full_batch = Some [(''type'', JStr ''dydx''), (''address'', JStr ''dydx1abc'')] \<and>
   owned_by empty_store (JStr ''dydx1abc'') (fst (syncBrowserData example_env empty_store full_batch)) \<and>
   map (\<lambda>r. r ''wallet_address'')
       (rows (fst (syncBrowserData example_env empty_store full_batch)) ''user_preferences'') =
     [Text ''dydx1abc''] \<and>
   map (\<lambda>r. r ''wallet_address'')
       (rows (fst (syncBrowserData example_env empty_store full_batch)) ''dismissed_items'') =
     [Text ''dydx1abc'']"
proof -
  have w: "wallets full_batch =
             Some [[(''type'', JStr ''evm''), (''address'', JStr ''0xabc''), (''chainId'', JStr ''1'')],
                   [(''type'', JStr ''dydx''), (''address'', JStr ''dydx1abc'')]]"
    by (simp add: full_batch_def)
  have p: "primaryWallet full_batch = Some [(''type'', JStr ''dydx''), (''address'', JStr ''dydx1abc'')]"
    by code_simp
  have a: "js_get [(''type'', JStr ''dydx''), (''address'', JStr ''dydx1abc'')] ''address'' = JStr ''dydx1abc''"
    by code_simp
  have r1: "map (\<lambda>r. r ''wallet_address'')
       (rows (fst (syncBrowserData example_env empty_store full_batch)) ''user_preferences'') =
     [Text ''dydx1abc'']"
    by code_simp
  have r2: "map (\<lambda>r. r ''wallet_address'')
       (rows (fst (syncBrowserData example_env empty_store full_batch)) ''dismissed_items'') =
     [Text ''dydx1abc'']"
    by code_simp
  from primary_wallet_owns_batch [OF w, of example_env empty_store]
  have "owned_by empty_store (JStr ''dydx1abc'') (fst (syncBrowserData example_env empty_store full_batch))"
    using p a by simp
  then show ?thesis using p r1 r2 by simp
qed

text \<open>
  Claim C10. A pass that reports \<^verbatim>\<open>success = false\<close> leaves the store as it was, and
  its counters are those the transaction callback had reached when it threw; they are not
  reset. For the batch whose dYdX wallet has no address, the EVM wallet is written inside
  the transaction and counted, the ledger row is refused (its \<^verbatim>\<open>wallet_address\<close> would be
  \<^verbatim>\<open>NULL\<close>), the transaction is rolled back, and the result still counts one wallet while
  \<^verbatim>\<open>user_wallets\<close> is empty. For a ledger pass with one balance on a store with the schema
  of \<^verbatim>\<open>schema.sql\<close>, the balance is written inside the transaction and counted, the
  position statement is refused, and the result counts one balance while
  \<^verbatim>\<open>account_balances\<close> is empty.
\<close>

theorem aborted_pass_keeps_counts:
  "(\<not> success (snd (syncBrowserData ev d data)) \<longrightarrow>
      fst (syncBrowserData ev d data) = d \<and>
      synced (snd (syncBrowserData ev d data)) =
        synced (snd (snd (browser_transaction ev data (d, browser_result ev))))) \<and>
   (\<not> success (snd (syncBlockchainData ev d a f)) \<longrightarrow>
      fst (syncBlockchainData ev d a f) = d \<and>
      synced (snd (syncBlockchainData ev d a f)) =
        synced (snd (snd (steps (chain_sections ev a f) (d, chain_result ev))))) \<and>
   (\<not> success (snd (syncBrowserData example_env empty_store unaddressed_batch)) \<and>
    count_of (synced (snd (syncBrowserData example_env empty_store unaddressed_batch))) ''wallets'' = 1 \<and>
    map (\<lambda>row. row ''address'')
        (rows (fst (snd (browser_transaction example_env unaddressed_batch
                           (empty_store, browser_result example_env)))) ''user_wallets'') =
      [Text ''0xabc''] \<and>
    rows (fst (syncBrowserData example_env empty_store unaddressed_batch)) ''user_wallets'' = []) \<and>
   (\<not> success (snd (syncBlockchainData example_env empty_store ''bb1'' one_balance)) \<and>
    count_of (synced (snd (syncBlockchainData example_env empty_store ''bb1'' one_balance))) ''balances'' = 1 \<and>
    map (\<lambda>row. row ''balance'')
        (rows (fst (snd (steps (chain_sections example_env ''bb1'' one_balance)
                           (empty_store, chain_result example_env)))) ''account_balances'') =
      [Text ''100''] \<and>
    rows (fst (syncBlockchainData example_env empty_store ''bb1'' one_balance)) ''account_balances'' = [])"
proof -
  have b: "synced (snd (syncBrowserData ev d data)) =
             synced (snd (snd (browser_transaction ev data (d, browser_result ev))))"
    by (cases rule: transact_cases [of "browser_transaction ev data" d "browser_result ev"
          "''Transaction failed''"])
       (simp_all add: syncBrowserData_def)
  have c: "synced (snd (syncBlockchainData ev d a f)) =
             synced (snd (snd (steps (chain_sections ev a f) (d, chain_result ev))))"
    by (cases rule: transact_cases [of "steps (chain_sections ev a f)" d "chain_result ev"
          "''Sync failed''"])
       (simp_all add: syncBlockchainData_def)
  have e1: "\<not> success (snd (syncBrowserData example_env empty_store unaddressed_batch))"
    by code_simp
  have e2: "count_of (synced (snd (syncBrowserData example_env empty_store unaddressed_batch)))
              ''wallets'' = 1"
    by code_simp
  have e3: "rows (fst (syncBrowserData example_env empty_store unaddressed_batch)) ''user_wallets'' = []"
    using browser_failed_unchanged [OF e1] by (simp add: empty_store_def)
  have e4: "map (\<lambda>row. row ''address'')
        (rows (fst (snd (browser_transaction example_env unaddressed_batch
                           (empty_store, browser_result example_env)))) ''user_wallets'') =
      [Text ''0xabc'']"
    by code_simp
  have f1: "\<not> success (snd (syncBlockchainData example_env empty_store ''bb1'' one_balance))"
    by code_simp
  have f2: "count_of (synced (snd (syncBlockchainData example_env empty_store ''bb1'' one_balance)))
              ''balances'' = 1"
    by code_simp
  have f3: "rows (fst (syncBlockchainData example_env empty_store ''bb1'' one_balance))
              ''account_balances'' = []"
    using chain_failed_unchanged [OF f1] by (simp add: empty_store_def)
  have f4: "map (\<lambda>row. row ''balance'')
        (rows (fst (snd (steps (chain_sections example_env ''bb1'' one_balance)
                           (empty_store, chain_result example_env)))) ''account_balances'') =
      [Text ''100'']"
    by code_simp
  show ?thesis
    using b c e1 e2 e3 e4 f1 f2 f3 f4 browser_failed_unchanged chain_failed_unchanged by blast
qed

theorem aborted_pass_keeps_counts_witness:
  "fst (syncBrowserData example_env empty_store unaddressed_batch) = empty_store \<and>
   count_of (synced (snd (syncBrowserData example_env empty_store unaddressed_batch))) ''wallets'' = 1 \<and>
   errors (snd (syncBrowserData example_env empty_store unaddressed_batch)) =
     [About ''Wallet'' JUndefined NotNullFailed, Plain ''Transaction failed'' NotNullFailed] \<and>
   fst (syncBlockchainData example_env empty_store ''bb1'' one_balance) = empty_store \<and>
   errors (snd (syncBlockchainData example_env empty_store ''bb1'' one_balance)) =
     [Plain ''Sync failed'' NoMatchingConstraint]"
proof -
  have "errors (snd (syncBrowserData example_env empty_store unaddressed_batch)) =
     [About ''Wallet'' JUndefined NotNullFailed, Plain ''Transaction failed'' NotNullFailed]"
    by code_simp
  moreover have "errors (snd (syncBlockchainData example_env empty_store ''bb1'' one_balance)) =
     [Plain ''Sync failed'' NoMatchingConstraint]"
    by code_simp
  ultimately show ?thesis
    using aborted_pass_keeps_counts [where ev = example_env and d = empty_store
        and data = unaddressed_batch and a = "''bb1''" and f = one_balance]
    by blast
qed

end
